theory Spec2Isabelle
  imports Main "HOL-Library.AList"
begin

section \<open>Data model of the cloud output device manager\<close>

text \<open>
  The development embeds \<^verbatim>\<open>CloudOutputDeviceManager.py\<close>. A cluster record as the
  cloud API returns it carries the three fields the manager reads.
\<close>

record CloudClusterResponse =
  cluster_id :: string
  host_name :: string
  is_online :: bool

record CloudErrorObject =
  title :: string

text \<open>
  Modelled from the spec: the class \<^verbatim>\<open>CloudOutputDevice\<close> is not part of the embedded
  source file. Section 3 and 4.2 of the specification give a device a key (the cluster id it
  was constructed with), a host name and a connection state with the two values
  Disconnected and Connected.
\<close>

record CloudOutputDevice =
  key :: string
  host_name :: string
  connected :: bool

text \<open>
  The active machine is consulted through two metadata entries only. An absent entry is
  \<open>None\<close>, as \<^verbatim>\<open>getMetaDataEntry\<close> returns it.
\<close>

record GlobalStack =
  um_cloud_cluster_id :: "string option"
  um_network_key :: "string option"

datatype error = KeyError string

datatype signal = LoginStateChanged | GlobalContainerStackChanged | TimerTimeout

text \<open>
  Every call the manager makes on a collaborator is appended to a log, in program order.
  Calls on a device are labelled with the device's own key.
\<close>

datatype effect =
    SignalConnect signal
  | SignalDisconnect signal
  | TimerStart
  | TimerStop
  | GetClusters
  | DeviceConnect string
  | DeviceDisconnect string
  | DeviceClose string
  | DeviceSetHostName string string
  | AddOutputDevice string
  | RemoveOutputDevice string
  | SetMetaDataEntry string string
  | MessageShow string

text \<open>
  The state holds the manager's own fields (\<open>remote_clusters\<close>, \<open>running\<close>, the timer)
  and the part of the application the manager reads or writes: the keys held by the output
  device registry, the login status of the account and the active machine. The dictionary
  \<open>remote_clusters\<close> is an association list in insertion order, as a Python dictionary
  iterates. A device object is referenced from one slot of the dictionary; the slot's key
  identifies the object, and the object's state is stored in the slot.
\<close>

record manager =
  remote_clusters :: "(string \<times> CloudOutputDevice) list"
  output_devices :: "string set"
  timer_active :: bool
  timer_interval :: int
  timer_single_shot :: bool
  running :: bool
  logged_in :: bool
  active_machine :: "GlobalStack option"
  effects :: "effect list"

definition META_CLUSTER_ID :: string where
  "META_CLUSTER_ID = ''um_cloud_cluster_id''"

definition CHECK_CLUSTER_INTERVAL :: int where
  "CHECK_CLUSTER_INTERVAL = 50"

definition init :: "bool \<Rightarrow> GlobalStack option \<Rightarrow> manager" where
  "init is_logged_in machine =
     \<lparr> remote_clusters = [],
       output_devices = {},
       timer_active = False,
       timer_interval = CHECK_CLUSTER_INTERVAL * 1000,
       timer_single_shot = False,
       running = False,
       logged_in = is_logged_in,
       active_machine = machine,
       effects = [] \<rparr>"

section \<open>Collaborators\<close>

definition emit :: "effect \<Rightarrow> manager \<Rightarrow> manager" where
  "emit e s = s\<lparr>effects := effects s @ [e]\<rparr>"

text \<open>
  Modelled from the spec: \<^verbatim>\<open>QTimer.start\<close>, \<^verbatim>\<open>QTimer.stop\<close> and the signal objects
  belong to the host framework. Arming and disarming set the timer's active flag;
  subscriptions are recorded in the log.
\<close>

definition timer_start :: "manager \<Rightarrow> manager" where
  "timer_start s = emit TimerStart (s\<lparr>timer_active := True\<rparr>)"

definition timer_stop :: "manager \<Rightarrow> manager" where
  "timer_stop s = emit TimerStop (s\<lparr>timer_active := False\<rparr>)"

text \<open>
  Modelled from the spec: the output device registry of section 6, with
  \<^verbatim>\<open>addOutputDevice(device)\<close> and \<^verbatim>\<open>removeOutputDevice(key)\<close>. It holds the keys
  that were added and not removed since.
\<close>

definition addOutputDevice :: "CloudOutputDevice \<Rightarrow> manager \<Rightarrow> manager" where
  "addOutputDevice d s =
     emit (AddOutputDevice (key d)) (s\<lparr>output_devices := insert (key d) (output_devices s)\<rparr>)"

definition removeOutputDevice :: "string \<Rightarrow> manager \<Rightarrow> manager" where
  "removeOutputDevice k s =
     emit (RemoveOutputDevice k) (s\<lparr>output_devices := output_devices s - {k}\<rparr>)"

text \<open>
  Modelled from the spec: the methods of \<^verbatim>\<open>CloudOutputDevice\<close> (section 4.2).
  \<open>connect\<close> moves the device to Connected, \<open>disconnect\<close> to Disconnected, \<open>close\<close>
  leaves the connection state alone. Each takes the slot \<open>k\<close> that refers to the object
  and the object's value \<open>d\<close>; a device that is no longer in the dictionary is changed
  nowhere else.
\<close>

definition mutate :: "string \<Rightarrow> (CloudOutputDevice \<Rightarrow> CloudOutputDevice) \<Rightarrow> manager \<Rightarrow> manager" where
  "mutate k f s = s\<lparr>remote_clusters := AList.map_entry k f (remote_clusters s)\<rparr>"

definition connect :: "string \<Rightarrow> CloudOutputDevice \<Rightarrow> manager \<Rightarrow> manager" where
  "connect k d s = emit (DeviceConnect (key d)) (mutate k (\<lambda>x. x\<lparr>connected := True\<rparr>) s)"

definition disconnect :: "string \<Rightarrow> CloudOutputDevice \<Rightarrow> manager \<Rightarrow> manager" where
  "disconnect k d s = emit (DeviceDisconnect (key d)) (mutate k (\<lambda>x. x\<lparr>connected := False\<rparr>) s)"

definition close :: "string \<Rightarrow> CloudOutputDevice \<Rightarrow> manager \<Rightarrow> manager" where
  "close k d s = emit (DeviceClose (key d)) s"

definition set_host_name :: "string \<Rightarrow> CloudOutputDevice \<Rightarrow> string \<Rightarrow> manager \<Rightarrow> manager" where
  "set_host_name k d h s = emit (DeviceSetHostName (key d) h) (mutate k (\<lambda>x. x\<lparr>host_name := h\<rparr>) s)"

text \<open>
  Modelled from the spec: \<^verbatim>\<open>Utils.findChanges\<close> is imported by the source file, its body
  is not part of it. Section 4.1: removed are the devices whose key is absent from the
  current records, added the records whose key is absent from the previous devices, updated
  the pairs with the key on both sides whose host name differs. Devices are returned with
  the slot that holds them. The lists follow the order of the dictionaries.
\<close>

definition findChanges ::
  "(string \<times> CloudOutputDevice) list \<Rightarrow> (string \<times> CloudClusterResponse) list \<Rightarrow>
     (string \<times> CloudOutputDevice) list \<times> CloudClusterResponse list \<times>
     ((string \<times> CloudOutputDevice) \<times> CloudClusterResponse) list" where
  "findChanges previous current =
     (filter (\<lambda>kd. map_of current (fst kd) = None) previous,
      map snd (filter (\<lambda>kc. map_of previous (fst kc) = None) current),
      concat (map (\<lambda>kd. case map_of current (fst kd) of
                           None \<Rightarrow> []
                         | Some c \<Rightarrow>
                             if host_name (snd kd) \<noteq> CloudClusterResponse.host_name c
                             then [(kd, c)] else [])
                  previous))"

section \<open>The manager's methods\<close>

text \<open>
  The network key predicate of a device is supplied from outside; the methods take it as
  the parameter \<open>matchesNetworkKey\<close>.
\<close>

definition connectByNetworkKey ::
  "(CloudOutputDevice \<Rightarrow> string \<Rightarrow> bool) \<Rightarrow> GlobalStack \<Rightarrow> manager \<Rightarrow> manager" where
  "connectByNetworkKey matchesNetworkKey machine s =
     (case um_network_key machine of
        None \<Rightarrow> s
      | Some local_network_key \<Rightarrow>
          if local_network_key = [] then s
          else (case find (\<lambda>kd. matchesNetworkKey (snd kd) local_network_key) (remote_clusters s) of
                  None \<Rightarrow> s
                | Some (k, device) \<Rightarrow>
                    connect k device
                      (emit (SetMetaDataEntry META_CLUSTER_ID (key device))
                        (s\<lparr>active_machine := Some (machine\<lparr>um_cloud_cluster_id := Some (key device)\<rparr>)\<rparr>))))"

definition connectToActiveMachine ::
  "(CloudOutputDevice \<Rightarrow> string \<Rightarrow> bool) \<Rightarrow> manager \<Rightarrow> manager" where
  "connectToActiveMachine matchesNetworkKey s =
     (case active_machine s of
        None \<Rightarrow> s
      | Some machine \<Rightarrow>
          (case um_cloud_cluster_id machine of
             None \<Rightarrow> connectByNetworkKey matchesNetworkKey machine s
           | Some stored_cluster_id \<Rightarrow>
               (case map_of (remote_clusters s) stored_cluster_id of
                  Some device \<Rightarrow>
                    if \<not> connected device then connect stored_cluster_id device s else s
                | None \<Rightarrow> connectByNetworkKey matchesNetworkKey machine s)))"

text \<open>
  The comprehension \<^verbatim>\<open>{c.cluster_id: c for c in clusters if c.is_online}\<close>: a later
  record with the same id replaces the value and keeps the position of the first.
\<close>

definition online_clusters ::
  "CloudClusterResponse list \<Rightarrow> (string \<times> CloudClusterResponse) list" where
  "online_clusters clusters =
     fold (\<lambda>c al. AList.update (cluster_id c) c al) (filter is_online clusters) []"

text \<open>
  The body of the first loop. \<^verbatim>\<open>del self._remote_clusters[removed_cluster.key]\<close>
  raises \<^verbatim>\<open>KeyError\<close> when the dictionary has no such key.
\<close>

definition remove_device :: "string \<times> CloudOutputDevice \<Rightarrow> manager \<Rightarrow> error + manager" where
  "remove_device kd s =
     (let k = fst kd; removed_cluster = snd kd;
          s1 = (if connected removed_cluster then disconnect k removed_cluster s else s);
          s2 = close k removed_cluster s1;
          s3 = removeOutputDevice (key removed_cluster) s2
      in if map_of (remote_clusters s3) (key removed_cluster) = None
         then Inl (KeyError (key removed_cluster))
         else Inr (s3\<lparr>remote_clusters := AList.delete (key removed_cluster) (remote_clusters s3)\<rparr>))"

fun remove_devices :: "(string \<times> CloudOutputDevice) list \<Rightarrow> manager \<Rightarrow> error + manager" where
  "remove_devices [] s = Inr s"
| "remove_devices (kd # rest) s =
     (case remove_device kd s of Inl e \<Rightarrow> Inl e | Inr s' \<Rightarrow> remove_devices rest s')"

definition add_cluster :: "CloudClusterResponse \<Rightarrow> manager \<Rightarrow> manager" where
  "add_cluster added_cluster s =
     (let device = \<lparr> key = cluster_id added_cluster,
                     host_name = CloudClusterResponse.host_name added_cluster,
                     connected = False \<rparr>;
          s1 = addOutputDevice device s
      in s1\<lparr>remote_clusters := AList.update (cluster_id added_cluster) device (remote_clusters s1)\<rparr>)"

fun add_clusters :: "CloudClusterResponse list \<Rightarrow> manager \<Rightarrow> manager" where
  "add_clusters [] s = s"
| "add_clusters (c # rest) s = add_clusters rest (add_cluster c s)"

fun apply_updates ::
  "((string \<times> CloudOutputDevice) \<times> CloudClusterResponse) list \<Rightarrow> manager \<Rightarrow> manager" where
  "apply_updates [] s = s"
| "apply_updates ((kd, cluster) # rest) s =
     apply_updates rest
       (set_host_name (fst kd) (snd kd) (CloudClusterResponse.host_name cluster) s)"

definition onGetRemoteClustersFinished ::
  "(CloudOutputDevice \<Rightarrow> string \<Rightarrow> bool) \<Rightarrow> CloudClusterResponse list \<Rightarrow> manager \<Rightarrow> error + manager" where
  "onGetRemoteClustersFinished matchesNetworkKey clusters s =
     (case findChanges (remote_clusters s) (online_clusters clusters) of
        (removed_devices, added_clusters, updates) \<Rightarrow>
          (case remove_devices removed_devices s of
             Inl e \<Rightarrow> Inl e
           | Inr s1 \<Rightarrow>
               Inr (connectToActiveMachine matchesNetworkKey
                      (apply_updates updates (add_clusters added_clusters s1)))))"

definition getRemoteClusters :: "manager \<Rightarrow> manager" where
  "getRemoteClusters s = emit GetClusters s"

definition onLoginStateChanged ::
  "(CloudOutputDevice \<Rightarrow> string \<Rightarrow> bool) \<Rightarrow> bool \<Rightarrow> manager \<Rightarrow> error + manager" where
  "onLoginStateChanged matchesNetworkKey is_logged_in s =
     (if is_logged_in
      then Inr (getRemoteClusters (if \<not> timer_active s then timer_start s else s))
      else onGetRemoteClustersFinished matchesNetworkKey []
             (if timer_active s then timer_stop s else s))"

text \<open>The separator of \<^verbatim>\<open>". ".join(...)\<close>.\<close>

fun join :: "string \<Rightarrow> string list \<Rightarrow> string" where
  "join sep [] = []"
| "join sep [x] = x"
| "join sep (x # y # rest) = x @ sep @ join sep (y # rest)"

definition onApiError :: "CloudErrorObject list \<Rightarrow> manager \<Rightarrow> manager" where
  "onApiError errors s = emit (MessageShow (join ''. '' (map title errors))) s"

definition start :: "(CloudOutputDevice \<Rightarrow> string \<Rightarrow> bool) \<Rightarrow> manager \<Rightarrow> error + manager" where
  "start matchesNetworkKey s =
     (if running s then Inr s
      else onLoginStateChanged matchesNetworkKey (logged_in s)
             (emit (SignalConnect TimerTimeout)
               (emit (SignalConnect GlobalContainerStackChanged)
                 (emit (SignalConnect LoginStateChanged) s))))"

definition stop :: "(CloudOutputDevice \<Rightarrow> string \<Rightarrow> bool) \<Rightarrow> manager \<Rightarrow> error + manager" where
  "stop matchesNetworkKey s =
     (if \<not> running s then Inr s
      else onLoginStateChanged matchesNetworkKey False
             (emit (SignalDisconnect TimerTimeout)
               (emit (SignalDisconnect GlobalContainerStackChanged)
                 (emit (SignalDisconnect LoginStateChanged) s))))"

section \<open>The manager driven by its environment\<close>

text \<open>
  The calls that reach the manager: the two public methods, the three signals it subscribes
  to, and the two callbacks of the API client. A login-state signal carries the new status
  of the account, and a change of the active machine installs the new machine before the
  handler runs.
\<close>

datatype operation =
    Start
  | Stop
  | LoginStateEmitted bool
  | ActiveMachineChanged "GlobalStack option"
  | TimerTick
  | ClustersReceived "CloudClusterResponse list"
  | ApiErrorReceived "CloudErrorObject list"

fun perform ::
  "(CloudOutputDevice \<Rightarrow> string \<Rightarrow> bool) \<Rightarrow> operation \<Rightarrow> manager \<Rightarrow> error + manager" where
  "perform mk Start s = start mk s"
| "perform mk Stop s = stop mk s"
| "perform mk (LoginStateEmitted b) s = onLoginStateChanged mk b (s\<lparr>logged_in := b\<rparr>)"
| "perform mk (ActiveMachineChanged m) s = Inr (connectToActiveMachine mk (s\<lparr>active_machine := m\<rparr>))"
| "perform mk TimerTick s = Inr (getRemoteClusters s)"
| "perform mk (ClustersReceived clusters) s = onGetRemoteClustersFinished mk clusters s"
| "perform mk (ApiErrorReceived errors) s = Inr (onApiError errors s)"

fun run ::
  "(CloudOutputDevice \<Rightarrow> string \<Rightarrow> bool) \<Rightarrow> operation list \<Rightarrow> manager \<Rightarrow> error + manager" where
  "run mk [] s = Inr s"
| "run mk (op # ops) s =
     (case perform mk op s of Inl e \<Rightarrow> Inl e | Inr s' \<Rightarrow> run mk ops s')"

section \<open>Notions used to state the properties\<close>

text \<open>
  The calls made on one removed device, in the order the first loop makes them, and the
  call made for one updated pair.
\<close>

definition teardown :: "string \<times> CloudOutputDevice \<Rightarrow> effect list" where
  "teardown kd =
     (if connected (snd kd) then [DeviceDisconnect (key (snd kd))] else []) @
     [DeviceClose (key (snd kd)), RemoveOutputDevice (key (snd kd))]"

definition update_effect :: "(string \<times> CloudOutputDevice) \<times> CloudClusterResponse \<Rightarrow> effect" where
  "update_effect u = DeviceSetHostName (key (snd (fst u))) (CloudClusterResponse.host_name (snd u))"

text \<open>
  Projections of a log: the texts of the notifications, the keys of the devices that were
  closed, and the keys of the devices that were disconnected, each in order.
\<close>

definition messages :: "effect list \<Rightarrow> string list" where
  "messages es = concat (map (\<lambda>e. case e of MessageShow t \<Rightarrow> [t] | _ \<Rightarrow> []) es)"

definition closed_keys :: "effect list \<Rightarrow> string list" where
  "closed_keys es = concat (map (\<lambda>e. case e of DeviceClose k \<Rightarrow> [k] | _ \<Rightarrow> []) es)"

definition disconnected_keys :: "effect list \<Rightarrow> string list" where
  "disconnected_keys es = concat (map (\<lambda>e. case e of DeviceDisconnect k \<Rightarrow> [k] | _ \<Rightarrow> []) es)"

text \<open>The calls the connection resolver can make.\<close>

definition resolver_effect :: "effect \<Rightarrow> bool" where
  "resolver_effect e =
     (case e of DeviceConnect k \<Rightarrow> True | SetMetaDataEntry k v \<Rightarrow> k = META_CLUSTER_ID | _ \<Rightarrow> False)"

text \<open>
  The stored cluster identity of a machine does not resolve: it is absent, or it is not a
  key of the device table.
\<close>

definition unbound :: "GlobalStack \<Rightarrow> manager \<Rightarrow> bool" where
  "unbound m s =
     (case um_cloud_cluster_id m of
        None \<Rightarrow> True
      | Some cid \<Rightarrow> map_of (remote_clusters s) cid = None)"

text \<open>
  A dictionary has each key once, and every device sits under its own key. The manager's
  invariant adds that the registry holds exactly the keys of the dictionary.
\<close>

definition table_inv :: "(string \<times> CloudOutputDevice) list \<Rightarrow> bool" where
  "table_inv tbl \<longleftrightarrow> distinct (map fst tbl) \<and> (\<forall>kd \<in> set tbl. key (snd kd) = fst kd)"

definition manager_inv :: "manager \<Rightarrow> bool" where
  "manager_inv s \<longleftrightarrow>
     table_inv (remote_clusters s) \<and> fst ` set (remote_clusters s) = output_devices s"

section \<open>Example inputs\<close>

text \<open>
  Two network key predicates: one that matches nothing, and one that holds when the
  network key starts with the host name of the device.
\<close>

definition no_match :: "CloudOutputDevice \<Rightarrow> string \<Rightarrow> bool" where
  "no_match d network_key = False"

definition host_prefix :: "CloudOutputDevice \<Rightarrow> string \<Rightarrow> bool" where
  "host_prefix d network_key \<longleftrightarrow> take (length (host_name d)) network_key = host_name d"

text \<open>Cluster records, devices and machines.\<close>

definition cluster_A :: CloudClusterResponse where
  "cluster_A = \<lparr> cluster_id = ''A'', host_name = ''h1'', is_online = True \<rparr>"

definition cluster_B :: CloudClusterResponse where
  "cluster_B = \<lparr> cluster_id = ''B'', host_name = ''h2'', is_online = True \<rparr>"

definition cluster_C :: CloudClusterResponse where
  "cluster_C = \<lparr> cluster_id = ''C'', host_name = ''h3'', is_online = True \<rparr>"

definition cluster_A_renamed :: CloudClusterResponse where
  "cluster_A_renamed = \<lparr> cluster_id = ''A'', host_name = ''h9'', is_online = True \<rparr>"

definition cluster_B_offline :: CloudClusterResponse where
  "cluster_B_offline = \<lparr> cluster_id = ''B'', host_name = ''h2'', is_online = False \<rparr>"

definition device_A :: CloudOutputDevice where
  "device_A = \<lparr> key = ''A'', host_name = ''h1'', connected = False \<rparr>"

definition device_B :: CloudOutputDevice where
  "device_B = \<lparr> key = ''B'', host_name = ''h2'', connected = True \<rparr>"

definition machine_bound_A :: GlobalStack where
  "machine_bound_A = \<lparr> um_cloud_cluster_id = Some ''A'', um_network_key = Some ''h2.local'' \<rparr>"

definition machine_unbound :: GlobalStack where
  "machine_unbound = \<lparr> um_cloud_cluster_id = None, um_network_key = Some ''h2.local'' \<rparr>"

definition machine_no_key :: GlobalStack where
  "machine_no_key = \<lparr> um_cloud_cluster_id = None, um_network_key = None \<rparr>"

definition machine_stale :: GlobalStack where
  "machine_stale = \<lparr> um_cloud_cluster_id = Some ''C'', um_network_key = Some ''h2.local'' \<rparr>"

text \<open>
  Managers: after \<open>start\<close> with the account logged out and logged in, after the first
  poll has delivered cluster A, and one with two devices, the second of them connected.
\<close>

definition manager_idle :: manager where
  "manager_idle =
     \<lparr> remote_clusters = [],
       output_devices = {},
       timer_active = False,
       timer_interval = 50000,
       timer_single_shot = False,
       running = False,
       logged_in = False,
       active_machine = None,
       effects = [SignalConnect LoginStateChanged, SignalConnect GlobalContainerStackChanged,
                  SignalConnect TimerTimeout] \<rparr>"

definition manager_started :: manager where
  "manager_started =
     \<lparr> remote_clusters = [],
       output_devices = {},
       timer_active = True,
       timer_interval = 50000,
       timer_single_shot = False,
       running = False,
       logged_in = True,
       active_machine = None,
       effects = [SignalConnect LoginStateChanged, SignalConnect GlobalContainerStackChanged,
                  SignalConnect TimerTimeout, TimerStart, GetClusters] \<rparr>"

definition manager_A :: manager where
  "manager_A =
     \<lparr> remote_clusters = [(''A'', device_A)],
       output_devices = {''A''},
       timer_active = True,
       timer_interval = 50000,
       timer_single_shot = False,
       running = False,
       logged_in = True,
       active_machine = None,
       effects = [SignalConnect LoginStateChanged, SignalConnect GlobalContainerStackChanged,
                  SignalConnect TimerTimeout, TimerStart, GetClusters, AddOutputDevice ''A''] \<rparr>"

definition manager_AB :: manager where
  "manager_AB =
     \<lparr> remote_clusters = [(''A'', device_A), (''B'', device_B)],
       output_devices = {''A'', ''B''},
       timer_active = True,
       timer_interval = 50000,
       timer_single_shot = False,
       running = False,
       logged_in = True,
       active_machine = None,
       effects = [] \<rparr>"

section \<open>Auxiliary facts\<close>

subsection \<open>The loop over removed devices\<close>

lemmas collaborator_defs =
  emit_def timer_start_def timer_stop_def addOutputDevice_def removeOutputDevice_def
  mutate_def connect_def disconnect_def close_def set_host_name_def

lemma map_of_eq_None_keys: "map_of al k = None \<longleftrightarrow> k \<notin> fst ` set al"
  by (simp add: map_of_eq_None_iff)

lemma delete_map_entry_same: "AList.delete k (AList.map_entry k f al) = AList.delete k al"
  by (induction al) auto

lemma map_of_map_entry_None: "map_of (AList.map_entry k f al) k' = None \<longleftrightarrow> map_of al k' = None"
  by (simp add: map_of_eq_None_keys AList.dom_map_entry)

lemma remove_device_ok:
  assumes "key d = k" and "k \<in> fst ` set (remote_clusters s)"
  shows "remove_device (k, d) s =
           Inr (s\<lparr>remote_clusters := AList.delete k (remote_clusters s),
                  output_devices := output_devices s - {k},
                  effects := effects s @ teardown (k, d)\<rparr>)"
  using assms
  by (simp add: remove_device_def teardown_def collaborator_defs Let_def
      map_of_map_entry_None map_of_eq_None_keys delete_map_entry_same AList.dom_map_entry)

lemma remove_devices_ok:
  assumes "\<forall>kd \<in> set rs. key (snd kd) = fst kd \<and> fst kd \<in> fst ` set (remote_clusters s)"
    and "distinct (map fst rs)"
  shows "remove_devices rs s =
           Inr (s\<lparr>remote_clusters := filter (\<lambda>kd. fst kd \<notin> fst ` set rs) (remote_clusters s),
                  output_devices := output_devices s - fst ` set rs,
                  effects := effects s @ concat (map teardown rs)\<rparr>)"
  using assms
proof (induction rs arbitrary: s)
  case Nil
  then show ?case by simp
next
  case (Cons kd rs)
  obtain k d where kd: "kd = (k, d)" by (cases kd)
  from Cons.prems kd have kdk: "key d = k" and kin: "k \<in> fst ` set (remote_clusters s)"
    by auto
  let ?s1 = "s\<lparr>remote_clusters := AList.delete k (remote_clusters s),
                 output_devices := output_devices s - {k},
                 effects := effects s @ teardown (k, d)\<rparr>"
  have step: "remove_device kd s = Inr ?s1"
    unfolding kd by (rule remove_device_ok [OF kdk kin])
  have pre: "\<forall>x \<in> set rs. key (snd x) = fst x \<and> fst x \<in> fst ` set (remote_clusters ?s1)"
  proof
    fix x assume x: "x \<in> set rs"
    with Cons.prems kd have "key (snd x) = fst x" "fst x \<in> fst ` set (remote_clusters s)" "fst x \<noteq> k"
      by force+
    then show "key (snd x) = fst x \<and> fst x \<in> fst ` set (remote_clusters ?s1)"
      by (auto simp: AList.delete_eq)
  qed
  from Cons.prems have dist: "distinct (map fst rs)" by simp
  have flt: "filter (\<lambda>x. fst x \<notin> fst ` set rs) (AList.delete k (remote_clusters s)) =
             filter (\<lambda>x. fst x \<notin> fst ` set (kd # rs)) (remote_clusters s)"
    by (auto simp: AList.delete_eq kd intro: filter_cong)
  have regs: "output_devices s - {k} - fst ` set rs = output_devices s - fst ` set (kd # rs)"
    by (auto simp: kd)
  show ?case
    by (simp add: step Cons.IH [OF pre dist] flt regs) (simp add: kd)
qed


subsection \<open>Well-formed tables\<close>

lemma table_inv_filter: "table_inv tbl \<Longrightarrow> table_inv (filter P tbl)"
  by (simp add: table_inv_def distinct_map_filter)

lemma set_update_subset: "set (AList.update k v al) \<subseteq> insert (k, v) (set al)"
  by (induction al) auto

lemma table_inv_update: "key d = k \<Longrightarrow> table_inv tbl \<Longrightarrow> table_inv (AList.update k d tbl)"
  using set_update_subset [of k d tbl]
  by (auto simp: table_inv_def AList.distinct_update)

lemma set_map_entry_cases:
  "x \<in> set (AList.map_entry k f al) \<Longrightarrow> x \<in> set al \<or> (\<exists>v. (k, v) \<in> set al \<and> x = (k, f v))"
  by (induction al) (auto split: if_splits)

lemma table_inv_map_entry:
  assumes "\<And>d. key (f d) = key d" and "table_inv tbl"
  shows "table_inv (AList.map_entry k f tbl)"
proof -
  have "key (snd x) = fst x" if "x \<in> set (AList.map_entry k f tbl)" for x
  proof -
    from set_map_entry_cases [OF that]
    consider "x \<in> set tbl" | v where "(k, v) \<in> set tbl" "x = (k, f v)"
      by blast
    then show ?thesis
    proof cases
      case 1
      with assms(2) show ?thesis by (simp add: table_inv_def)
    next
      case 2
      from assms(2) 2(1) have "key v = k" by (auto simp: table_inv_def)
      with 2(2) assms(1) show ?thesis by simp
    qed
  qed
  with assms(2) show ?thesis
    by (simp add: table_inv_def AList.distinct_map_entry)
qed

subsection \<open>The dictionary of online clusters\<close>

lemma fold_update_keys:
  "fst ` set (fold (\<lambda>c al. AList.update (cluster_id c) c al) xs al) = fst ` set al \<union> cluster_id ` set xs"
proof (induction xs arbitrary: al)
  case Nil
  show ?case by simp
next
  case (Cons c xs)
  have "fst ` set (AList.update (cluster_id c) c al) = insert (cluster_id c) (fst ` set al)"
    by (simp add: AList.dom_update)
  then show ?case
    by (simp add: Cons.IH)
qed

lemma fold_update_distinct:
  "distinct (map fst al) \<Longrightarrow> distinct (map fst (fold (\<lambda>c al. AList.update (cluster_id c) c al) xs al))"
proof (induction xs arbitrary: al)
  case Nil
  then show ?case by simp
next
  case (Cons c xs)
  from Cons.prems have "distinct (map fst (AList.update (cluster_id c) c al))"
    by (rule AList.distinct_update)
  from Cons.IH [OF this] show ?case by simp
qed

lemma fold_update_entries:
  assumes "\<forall>kc \<in> set al. cluster_id (snd kc) = fst kc \<and> P (snd kc)" and "\<forall>c \<in> set xs. P c"
  shows "\<forall>kc \<in> set (fold (\<lambda>c al. AList.update (cluster_id c) c al) xs al). cluster_id (snd kc) = fst kc \<and> P (snd kc)"
  using assms
proof (induction xs arbitrary: al)
  case Nil
  then show ?case by simp
next
  case (Cons c xs)
  have upd: "\<forall>kc \<in> set (AList.update (cluster_id c) c al). cluster_id (snd kc) = fst kc \<and> P (snd kc)"
  proof
    fix kc assume "kc \<in> set (AList.update (cluster_id c) c al)"
    with set_update_subset [of "cluster_id c" c al]
    have "kc = (cluster_id c, c) \<or> kc \<in> set al" by blast
    with Cons.prems show "cluster_id (snd kc) = fst kc \<and> P (snd kc)" by auto
  qed
  from Cons.prems(2) have rest: "\<forall>c \<in> set xs. P c" by simp
  from Cons.IH [OF upd rest] show ?case by simp
qed

lemma online_clusters_keys:
  "fst ` set (online_clusters clusters) = cluster_id ` {c \<in> set clusters. is_online c}"
proof -
  have "set (filter is_online clusters) = {c \<in> set clusters. is_online c}" by auto
  then show ?thesis
    unfolding online_clusters_def fold_update_keys by simp
qed

lemma online_clusters_distinct: "distinct (map fst (online_clusters clusters))"
  unfolding online_clusters_def by (rule fold_update_distinct) simp

lemma online_clusters_entries:
  assumes "kc \<in> set (online_clusters clusters)"
  shows "cluster_id (snd kc) = fst kc \<and> is_online (snd kc)"
proof -
  have "\<forall>kc \<in> set (fold (\<lambda>c al. AList.update (cluster_id c) c al) (filter is_online clusters) []).
          cluster_id (snd kc) = fst kc \<and> is_online (snd kc)"
    by (rule fold_update_entries) simp_all
  with assms show ?thesis
    unfolding online_clusters_def by blast
qed

lemma online_clusters_filter: "online_clusters (filter is_online clusters) = online_clusters clusters"
  by (simp add: online_clusters_def)

subsection \<open>The loop over added clusters\<close>

lemma add_clusters_timer_active [simp]: "timer_active (add_clusters cs s) = timer_active s"
  by (induction cs arbitrary: s) (simp_all add: add_cluster_def collaborator_defs Let_def)

lemma add_clusters_timer_interval [simp]: "timer_interval (add_clusters cs s) = timer_interval s"
  by (induction cs arbitrary: s) (simp_all add: add_cluster_def collaborator_defs Let_def)

lemma add_clusters_timer_single_shot [simp]: "timer_single_shot (add_clusters cs s) = timer_single_shot s"
  by (induction cs arbitrary: s) (simp_all add: add_cluster_def collaborator_defs Let_def)

lemma add_clusters_running [simp]: "running (add_clusters cs s) = running s"
  by (induction cs arbitrary: s) (simp_all add: add_cluster_def collaborator_defs Let_def)

lemma add_clusters_logged_in [simp]: "logged_in (add_clusters cs s) = logged_in s"
  by (induction cs arbitrary: s) (simp_all add: add_cluster_def collaborator_defs Let_def)

lemma add_clusters_active_machine [simp]: "active_machine (add_clusters cs s) = active_machine s"
  by (induction cs arbitrary: s) (simp_all add: add_cluster_def collaborator_defs Let_def)

lemma add_clusters_effects:
  "effects (add_clusters cs s) = effects s @ map (\<lambda>c. AddOutputDevice (cluster_id c)) cs"
  by (induction cs arbitrary: s) (simp_all add: add_cluster_def collaborator_defs Let_def)

lemma add_clusters_registry:
  "output_devices (add_clusters cs s) = output_devices s \<union> cluster_id ` set cs"
  by (induction cs arbitrary: s) (auto simp: add_cluster_def collaborator_defs Let_def)

lemma add_clusters_keys:
  "fst ` set (remote_clusters (add_clusters cs s)) = fst ` set (remote_clusters s) \<union> cluster_id ` set cs"
  by (induction cs arbitrary: s) (auto simp: add_cluster_def collaborator_defs Let_def AList.dom_update)

lemma add_clusters_table_inv:
  "table_inv (remote_clusters s) \<Longrightarrow> table_inv (remote_clusters (add_clusters cs s))"
  by (induction cs arbitrary: s) (simp_all add: add_cluster_def collaborator_defs Let_def table_inv_update)

subsection \<open>The loop over updates\<close>

lemma apply_updates_timer_active [simp]: "timer_active (apply_updates us s) = timer_active s"
  by (induction us s rule: apply_updates.induct) (simp_all add: collaborator_defs)

lemma apply_updates_timer_interval [simp]: "timer_interval (apply_updates us s) = timer_interval s"
  by (induction us s rule: apply_updates.induct) (simp_all add: collaborator_defs)

lemma apply_updates_timer_single_shot [simp]: "timer_single_shot (apply_updates us s) = timer_single_shot s"
  by (induction us s rule: apply_updates.induct) (simp_all add: collaborator_defs)

lemma apply_updates_running [simp]: "running (apply_updates us s) = running s"
  by (induction us s rule: apply_updates.induct) (simp_all add: collaborator_defs)

lemma apply_updates_logged_in [simp]: "logged_in (apply_updates us s) = logged_in s"
  by (induction us s rule: apply_updates.induct) (simp_all add: collaborator_defs)

lemma apply_updates_active_machine [simp]: "active_machine (apply_updates us s) = active_machine s"
  by (induction us s rule: apply_updates.induct) (simp_all add: collaborator_defs)

lemma apply_updates_output_devices [simp]: "output_devices (apply_updates us s) = output_devices s"
  by (induction us s rule: apply_updates.induct) (simp_all add: collaborator_defs)

lemma apply_updates_effects:
  "effects (apply_updates us s) = effects s @ map update_effect us"
  by (induction us s rule: apply_updates.induct) (simp_all add: collaborator_defs update_effect_def)

lemma apply_updates_keys:
  "fst ` set (remote_clusters (apply_updates us s)) = fst ` set (remote_clusters s)"
  by (induction us s rule: apply_updates.induct) (simp_all add: collaborator_defs AList.dom_map_entry)

lemma apply_updates_table_inv:
  "table_inv (remote_clusters s) \<Longrightarrow> table_inv (remote_clusters (apply_updates us s))"
  by (induction us s rule: apply_updates.induct) (simp_all add: collaborator_defs table_inv_map_entry)

subsection \<open>The connection resolver\<close>

lemma connectByNetworkKey_keys:
  "fst ` set (remote_clusters (connectByNetworkKey mk m s)) = fst ` set (remote_clusters s)"
  by (simp add: connectByNetworkKey_def collaborator_defs AList.dom_map_entry
      split: option.splits prod.splits)

lemma connectByNetworkKey_table_inv:
  "table_inv (remote_clusters s) \<Longrightarrow> table_inv (remote_clusters (connectByNetworkKey mk m s))"
  by (simp add: connectByNetworkKey_def collaborator_defs table_inv_map_entry
      split: option.splits prod.splits)

lemma connectByNetworkKey_frame [simp]:
  "output_devices (connectByNetworkKey mk m s) = output_devices s"
  "timer_active (connectByNetworkKey mk m s) = timer_active s"
  "timer_interval (connectByNetworkKey mk m s) = timer_interval s"
  "timer_single_shot (connectByNetworkKey mk m s) = timer_single_shot s"
  "running (connectByNetworkKey mk m s) = running s"
  "logged_in (connectByNetworkKey mk m s) = logged_in s"
  by (simp_all add: connectByNetworkKey_def collaborator_defs split: option.splits prod.splits)

lemma connectByNetworkKey_effects:
  "\<exists>res. effects (connectByNetworkKey mk m s) = effects s @ res \<and> list_all resolver_effect res"
  by (simp add: connectByNetworkKey_def collaborator_defs resolver_effect_def
      split: option.splits prod.splits)

lemma connectToActiveMachine_keys:
  "fst ` set (remote_clusters (connectToActiveMachine mk s)) = fst ` set (remote_clusters s)"
  by (simp add: connectToActiveMachine_def connectByNetworkKey_keys collaborator_defs
      AList.dom_map_entry split: option.splits)

lemma connectToActiveMachine_table_inv:
  "table_inv (remote_clusters s) \<Longrightarrow> table_inv (remote_clusters (connectToActiveMachine mk s))"
  by (simp add: connectToActiveMachine_def connectByNetworkKey_table_inv collaborator_defs
      table_inv_map_entry split: option.splits)

lemma connectToActiveMachine_frame [simp]:
  "output_devices (connectToActiveMachine mk s) = output_devices s"
  "timer_active (connectToActiveMachine mk s) = timer_active s"
  "timer_interval (connectToActiveMachine mk s) = timer_interval s"
  "timer_single_shot (connectToActiveMachine mk s) = timer_single_shot s"
  "running (connectToActiveMachine mk s) = running s"
  "logged_in (connectToActiveMachine mk s) = logged_in s"
  by (simp_all add: connectToActiveMachine_def collaborator_defs split: option.splits)

lemma connectToActiveMachine_effects:
  "\<exists>res. effects (connectToActiveMachine mk s) = effects s @ res \<and> list_all resolver_effect res"
  using connectByNetworkKey_effects
  by (simp add: connectToActiveMachine_def collaborator_defs resolver_effect_def
      split: option.splits)

lemma connectToActiveMachine_empty:
  "remote_clusters s = [] \<Longrightarrow> connectToActiveMachine mk s = s"
  by (simp add: connectToActiveMachine_def connectByNetworkKey_def split: option.splits)

subsection \<open>One reconciliation\<close>

lemma findChanges_removed:
  "fst (findChanges previous current) = filter (\<lambda>kd. fst kd \<notin> fst ` set current) previous"
  by (simp add: findChanges_def map_of_eq_None_keys)

lemma findChanges_added:
  "fst (snd (findChanges previous current)) = map snd (filter (\<lambda>kc. fst kc \<notin> fst ` set previous) current)"
  by (simp add: findChanges_def map_of_eq_None_keys)

lemma reconcile_ok:
  assumes inv: "table_inv (remote_clusters s)"
    and fc: "findChanges (remote_clusters s) (online_clusters clusters) = (removed, added, updates)"
  shows "onGetRemoteClustersFinished mk clusters s =
           Inr (connectToActiveMachine mk (apply_updates updates (add_clusters added
                 (s\<lparr>remote_clusters := filter (\<lambda>kd. fst kd \<notin> fst ` set removed) (remote_clusters s),
                    output_devices := output_devices s - fst ` set removed,
                    effects := effects s @ concat (map teardown removed)\<rparr>))))"
proof -
  from fc have rem: "removed = filter (\<lambda>kd. fst kd \<notin> fst ` set (online_clusters clusters)) (remote_clusters s)"
    using findChanges_removed [of "remote_clusters s" "online_clusters clusters"] by simp
  have pre: "\<forall>kd \<in> set removed. key (snd kd) = fst kd \<and> fst kd \<in> fst ` set (remote_clusters s)"
    using inv by (auto simp: rem table_inv_def)
  have dist: "distinct (map fst removed)"
    using inv by (simp add: rem table_inv_def distinct_map_filter)
  show ?thesis
    by (simp add: onGetRemoteClustersFinished_def fc remove_devices_ok [OF pre dist])
qed

lemma reconcile_keys_aux:
  assumes fc: "findChanges previous (online_clusters clusters) = (removed, added, updates)"
  shows "fst ` set (filter (\<lambda>kd. fst kd \<notin> fst ` set removed) previous) \<union> cluster_id ` set added
           = cluster_id ` {c \<in> set clusters. is_online c}"
    and "(fst ` set previous - fst ` set removed) \<union> cluster_id ` set added
           = cluster_id ` {c \<in> set clusters. is_online c}"
proof -
  let ?cur = "online_clusters clusters"
  from fc have rem: "removed = filter (\<lambda>kd. fst kd \<notin> fst ` set ?cur) previous"
    using findChanges_removed [of previous ?cur] by simp
  from fc have add: "added = map snd (filter (\<lambda>kc. fst kc \<notin> fst ` set previous) ?cur)"
    using findChanges_added [of previous ?cur] by simp
  have ids: "cluster_id ` set added = fst ` set ?cur - fst ` set previous"
  proof -
    have "cluster_id (snd kc) = fst kc" if "kc \<in> set ?cur" for kc
      using online_clusters_entries [OF that] by simp
    then have "cluster_id ` set added = fst ` {kc \<in> set ?cur. fst kc \<notin> fst ` set previous}"
      unfolding add by (force simp: image_iff)
    also have "\<dots> = fst ` set ?cur - fst ` set previous" by auto
    finally show ?thesis .
  qed
  have remk: "fst ` set removed = fst ` set previous - fst ` set ?cur"
    unfolding rem by auto
  have keep: "fst ` set (filter (\<lambda>kd. fst kd \<notin> fst ` set removed) previous) = fst ` set previous \<inter> fst ` set ?cur"
    unfolding remk by auto
  show "fst ` set (filter (\<lambda>kd. fst kd \<notin> fst ` set removed) previous) \<union> cluster_id ` set added
           = cluster_id ` {c \<in> set clusters. is_online c}"
    unfolding keep ids online_clusters_keys [symmetric] by blast
  show "(fst ` set previous - fst ` set removed) \<union> cluster_id ` set added
           = cluster_id ` {c \<in> set clusters. is_online c}"
    unfolding remk ids online_clusters_keys [symmetric] by blast
qed

lemma reconcile_keys:
  assumes inv: "table_inv (remote_clusters s)"
    and res: "onGetRemoteClustersFinished mk clusters s = Inr s'"
  shows "fst ` set (remote_clusters s') = cluster_id ` {c \<in> set clusters. is_online c}"
proof -
  obtain removed added updates
    where fc: "findChanges (remote_clusters s) (online_clusters clusters) = (removed, added, updates)"
    by (cases "findChanges (remote_clusters s) (online_clusters clusters)") auto
  from res reconcile_ok [OF inv fc, of mk] have s': "s' = connectToActiveMachine mk (apply_updates updates (add_clusters added
                 (s\<lparr>remote_clusters := filter (\<lambda>kd. fst kd \<notin> fst ` set removed) (remote_clusters s),
                    output_devices := output_devices s - fst ` set removed,
                    effects := effects s @ concat (map teardown removed)\<rparr>)))"
    by simp
  show ?thesis
    unfolding s' connectToActiveMachine_keys apply_updates_keys add_clusters_keys
    using reconcile_keys_aux(1) [OF fc] by simp
qed

lemma reconcile_inv:
  assumes inv: "manager_inv s"
    and res: "onGetRemoteClustersFinished mk clusters s = Inr s'"
  shows "manager_inv s'"
proof -
  from inv have tinv: "table_inv (remote_clusters s)" and sync: "fst ` set (remote_clusters s) = output_devices s"
    by (simp_all add: manager_inv_def)
  obtain removed added updates
    where fc: "findChanges (remote_clusters s) (online_clusters clusters) = (removed, added, updates)"
    by (cases "findChanges (remote_clusters s) (online_clusters clusters)") auto
  let ?s1 = "s\<lparr>remote_clusters := filter (\<lambda>kd. fst kd \<notin> fst ` set removed) (remote_clusters s),
                    output_devices := output_devices s - fst ` set removed,
                    effects := effects s @ concat (map teardown removed)\<rparr>"
  from res reconcile_ok [OF tinv fc, of mk]
  have s': "s' = connectToActiveMachine mk (apply_updates updates (add_clusters added ?s1))"
    by simp
  have "table_inv (remote_clusters ?s1)"
    using tinv by (simp add: table_inv_filter)
  then have t': "table_inv (remote_clusters s')"
    unfolding s'
    by (intro connectToActiveMachine_table_inv apply_updates_table_inv add_clusters_table_inv)
  have reg: "output_devices s' = cluster_id ` {c \<in> set clusters. is_online c}"
    unfolding s' using reconcile_keys_aux(2) [OF fc]
    by (simp add: add_clusters_registry sync [symmetric])
  show ?thesis
    unfolding manager_inv_def using t' reg reconcile_keys [OF tinv res] by simp
qed

subsection \<open>Preservation of the invariant\<close>

lemma reconcile_total:
  assumes "table_inv (remote_clusters s)"
  shows "\<exists>s'. onGetRemoteClustersFinished mk clusters s = Inr s'"
proof -
  obtain removed added updates
    where fc: "findChanges (remote_clusters s) (online_clusters clusters) = (removed, added, updates)"
    by (cases "findChanges (remote_clusters s) (online_clusters clusters)") auto
  from reconcile_ok [OF assms fc, of mk] show ?thesis by blast
qed

lemma manager_inv_cong:
  "remote_clusters s' = remote_clusters s \<Longrightarrow> output_devices s' = output_devices s \<Longrightarrow>
     manager_inv s' = manager_inv s"
  by (simp add: manager_inv_def)

lemma reconcile_preserves:
  assumes "manager_inv s"
  shows "\<exists>s'. onGetRemoteClustersFinished mk clusters s = Inr s' \<and> manager_inv s'"
proof -
  from assms have "table_inv (remote_clusters s)" by (simp add: manager_inv_def)
  from reconcile_total [OF this, of mk clusters]
  obtain s' where "onGetRemoteClustersFinished mk clusters s = Inr s'" by blast
  with reconcile_inv [OF assms this] show ?thesis by blast
qed

lemma onLoginStateChanged_preserves:
  assumes "manager_inv s"
  shows "\<exists>s'. onLoginStateChanged mk b s = Inr s' \<and> manager_inv s'"
proof (cases b)
  case True
  have "manager_inv (getRemoteClusters (if \<not> timer_active s then timer_start s else s)) = manager_inv s"
    by (rule manager_inv_cong) (simp_all add: getRemoteClusters_def collaborator_defs)
  with assms True show ?thesis by (simp add: onLoginStateChanged_def)
next
  case False
  have "manager_inv (if timer_active s then timer_stop s else s) = manager_inv s"
    by (rule manager_inv_cong) (simp_all add: collaborator_defs)
  with assms have "manager_inv (if timer_active s then timer_stop s else s)" by simp
  from reconcile_preserves [OF this, of mk "[]"] False show ?thesis
    by (simp add: onLoginStateChanged_def)
qed

lemma connectToActiveMachine_preserves:
  assumes "manager_inv s"
  shows "manager_inv (connectToActiveMachine mk s)"
  using assms connectToActiveMachine_table_inv [of s mk] connectToActiveMachine_keys [of mk s]
  by (simp add: manager_inv_def)

lemma start_preserves:
  assumes "manager_inv s"
  shows "\<exists>s'. start mk s = Inr s' \<and> manager_inv s'"
proof (cases "running s")
  case True
  with assms show ?thesis by (simp add: start_def)
next
  case False
  let ?s0 = "emit (SignalConnect TimerTimeout) (emit (SignalConnect GlobalContainerStackChanged)
               (emit (SignalConnect LoginStateChanged) s))"
  have "manager_inv ?s0 = manager_inv s"
    by (rule manager_inv_cong) (simp_all add: emit_def)
  with assms have "manager_inv ?s0" by simp
  from onLoginStateChanged_preserves [OF this, of mk "logged_in s"] False show ?thesis
    by (simp add: start_def)
qed

lemma stop_preserves:
  assumes "manager_inv s"
  shows "\<exists>s'. stop mk s = Inr s' \<and> manager_inv s'"
proof (cases "running s")
  case False
  with assms show ?thesis by (simp add: stop_def)
next
  case True
  let ?s0 = "emit (SignalDisconnect TimerTimeout) (emit (SignalDisconnect GlobalContainerStackChanged)
               (emit (SignalDisconnect LoginStateChanged) s))"
  have "manager_inv ?s0 = manager_inv s"
    by (rule manager_inv_cong) (simp_all add: emit_def)
  with assms have "manager_inv ?s0" by simp
  from onLoginStateChanged_preserves [OF this, of mk False] True show ?thesis
    by (simp add: stop_def)
qed

lemma perform_preserves:
  assumes "manager_inv s"
  shows "\<exists>s'. perform mk op s = Inr s' \<and> manager_inv s'"
proof (cases op)
  case Start
  with start_preserves [OF assms] show ?thesis by simp
next
  case Stop
  with stop_preserves [OF assms] show ?thesis by simp
next
  case (LoginStateEmitted b)
  have "manager_inv (s\<lparr>logged_in := b\<rparr>) = manager_inv s"
    by (rule manager_inv_cong) simp_all
  with assms have "manager_inv (s\<lparr>logged_in := b\<rparr>)" by simp
  from onLoginStateChanged_preserves [OF this] LoginStateEmitted show ?thesis by simp
next
  case (ActiveMachineChanged m)
  have "manager_inv (s\<lparr>active_machine := m\<rparr>) = manager_inv s"
    by (rule manager_inv_cong) simp_all
  with assms have "manager_inv (s\<lparr>active_machine := m\<rparr>)" by simp
  from connectToActiveMachine_preserves [OF this] ActiveMachineChanged show ?thesis by simp
next
  case TimerTick
  have "manager_inv (getRemoteClusters s) = manager_inv s"
    by (rule manager_inv_cong) (simp_all add: getRemoteClusters_def emit_def)
  with assms TimerTick show ?thesis by simp
next
  case (ClustersReceived clusters)
  with reconcile_preserves [OF assms] show ?thesis by simp
next
  case (ApiErrorReceived errors)
  have "manager_inv (onApiError errors s) = manager_inv s"
    by (rule manager_inv_cong) (simp_all add: onApiError_def emit_def)
  with assms ApiErrorReceived show ?thesis by simp
qed

lemmas manager_defs =
  start_def stop_def onLoginStateChanged_def getRemoteClusters_def onGetRemoteClustersFinished_def
  findChanges_def online_clusters_def remove_device_def add_cluster_def connectToActiveMachine_def
  connectByNetworkKey_def onApiError_def init_def CHECK_CLUSTER_INTERVAL_def META_CLUSTER_ID_def

lemmas example_defs =
  no_match_def host_prefix_def cluster_A_def cluster_B_def device_A_def device_B_def manager_A_def

subsection \<open>The running flag\<close>

lemma remove_devices_running:
  "remove_devices rs s = Inr s' \<Longrightarrow> running s' = running s"
proof (induction rs arbitrary: s)
  case Nil
  then show ?case by simp
next
  case (Cons kd rs)
  from Cons.prems obtain s1 where s1: "remove_device kd s = Inr s1" and rest: "remove_devices rs s1 = Inr s'"
    by (auto split: sum.splits)
  from s1 have "running s1 = running s"
    by (auto simp: remove_device_def collaborator_defs Let_def split: if_splits)
  with Cons.IH [OF rest] show ?case by simp
qed

lemma reconcile_running:
  assumes "onGetRemoteClustersFinished mk clusters s = Inr s'"
  shows "running s' = running s"
proof -
  obtain removed added updates
    where fc: "findChanges (remote_clusters s) (online_clusters clusters) = (removed, added, updates)"
    by (cases "findChanges (remote_clusters s) (online_clusters clusters)") auto
  from assms fc obtain s1 where s1: "remove_devices removed s = Inr s1"
    and s': "s' = connectToActiveMachine mk (apply_updates updates (add_clusters added s1))"
    by (auto simp: onGetRemoteClustersFinished_def split: sum.splits)
  from remove_devices_running [OF s1] show ?thesis by (simp add: s')
qed

lemma onLoginStateChanged_running:
  assumes "onLoginStateChanged mk b s = Inr s'"
  shows "running s' = running s"
proof (cases b)
  case True
  with assms show ?thesis
    by (auto simp: onLoginStateChanged_def getRemoteClusters_def collaborator_defs split: if_splits)
next
  case False
  with assms have "onGetRemoteClustersFinished mk [] (if timer_active s then timer_stop s else s) = Inr s'"
    by (simp add: onLoginStateChanged_def)
  from reconcile_running [OF this] show ?thesis by (simp add: collaborator_defs)
qed

lemma perform_running:
  assumes "perform mk op s = Inr s'"
  shows "running s' = running s"
proof (cases op)
  case Start
  show ?thesis
  proof (cases "running s")
    case True
    with assms Start show ?thesis by (simp add: start_def)
  next
    case False
    with assms Start have "onLoginStateChanged mk (logged_in s)
        (emit (SignalConnect TimerTimeout) (emit (SignalConnect GlobalContainerStackChanged)
               (emit (SignalConnect LoginStateChanged) s))) = Inr s'"
      by (simp add: start_def)
    from onLoginStateChanged_running [OF this] show ?thesis by (simp add: emit_def)
  qed
next
  case Stop
  show ?thesis
  proof (cases "running s")
    case False
    with assms Stop show ?thesis by (simp add: stop_def)
  next
    case True
    with assms Stop have "onLoginStateChanged mk False
        (emit (SignalDisconnect TimerTimeout) (emit (SignalDisconnect GlobalContainerStackChanged)
               (emit (SignalDisconnect LoginStateChanged) s))) = Inr s'"
      by (simp add: stop_def)
    from onLoginStateChanged_running [OF this] show ?thesis by (simp add: emit_def)
  qed
next
  case (LoginStateEmitted b)
  with assms have "onLoginStateChanged mk b (s\<lparr>logged_in := b\<rparr>) = Inr s'" by simp
  from onLoginStateChanged_running [OF this] show ?thesis by simp
next
  case (ActiveMachineChanged m)
  with assms show ?thesis by auto
next
  case TimerTick
  with assms show ?thesis by (auto simp: getRemoteClusters_def emit_def)
next
  case (ClustersReceived clusters)
  with assms reconcile_running show ?thesis by simp
next
  case (ApiErrorReceived errors)
  with assms show ?thesis by (auto simp: onApiError_def emit_def)
qed

lemma run_running:
  "run mk ops s = Inr s' \<Longrightarrow> running s' = running s"
proof (induction ops arbitrary: s)
  case Nil
  then show ?case by simp
next
  case (Cons op ops)
  from Cons.prems obtain s1 where s1: "perform mk op s = Inr s1" and rest: "run mk ops s1 = Inr s'"
    by (auto split: sum.splits)
  from perform_running [OF s1] Cons.IH [OF rest] show ?case by simp
qed

lemma run_preserves:
  "manager_inv s \<Longrightarrow> \<exists>s'. run mk ops s = Inr s' \<and> manager_inv s'"
proof (induction ops arbitrary: s)
  case Nil
  then show ?case by simp
next
  case (Cons op ops)
  from perform_preserves [OF Cons.prems, of mk op]
  obtain s1 where s1: "perform mk op s = Inr s1" and inv1: "manager_inv s1" by blast
  from Cons.IH [OF inv1] s1 show ?case by simp
qed

lemma run_example_A:
  "run no_match [Start, ClustersReceived [cluster_A]] (init True None) = Inr manager_A"
  by (simp add: manager_defs collaborator_defs example_defs)

subsection \<open>Draining\<close>

lemma findChanges_empty:
  "findChanges previous (online_clusters []) = (previous, [], [])"
  by (simp add: findChanges_def online_clusters_def)

lemma drain_ok:
  assumes "table_inv (remote_clusters s)"
  shows "onGetRemoteClustersFinished mk [] s =
           Inr (s\<lparr>remote_clusters := [],
                  output_devices := output_devices s - fst ` set (remote_clusters s),
                  effects := effects s @ concat (map teardown (remote_clusters s))\<rparr>)"
proof -
  have flt: "filter (\<lambda>kd. fst kd \<notin> fst ` set (remote_clusters s)) (remote_clusters s) = []"
    by (simp add: filter_empty_conv)
  show ?thesis
    unfolding reconcile_ok [OF assms findChanges_empty, of mk]
    by (simp add: flt connectToActiveMachine_empty)
qed

lemma logout_ok:
  assumes "table_inv (remote_clusters s)"
  shows "onLoginStateChanged mk False s =
           Inr (s\<lparr>remote_clusters := [],
                  output_devices := output_devices s - fst ` set (remote_clusters s),
                  timer_active := False,
                  effects := effects s @ (if timer_active s then [TimerStop] else [])
                               @ concat (map teardown (remote_clusters s))\<rparr>)"
proof (cases "timer_active s")
  case True
  have "table_inv (remote_clusters (timer_stop s))"
    using assms by (simp add: collaborator_defs)
  from drain_ok [OF this, of mk] True show ?thesis
    by (simp add: onLoginStateChanged_def) (simp add: collaborator_defs)
next
  case False
  from drain_ok [OF assms, of mk] False show ?thesis
    by (simp add: onLoginStateChanged_def)
qed

subsection \<open>Starting\<close>

lemma login_ok:
  "onLoginStateChanged mk True s =
     Inr (s\<lparr>timer_active := True,
            effects := effects s @ (if timer_active s then [] else [TimerStart]) @ [GetClusters]\<rparr>)"
  by (simp add: onLoginStateChanged_def getRemoteClusters_def collaborator_defs)

lemma remove_devices_timer:
  "remove_devices rs s = Inr s' \<Longrightarrow>
     timer_interval s' = timer_interval s \<and> timer_single_shot s' = timer_single_shot s"
proof (induction rs arbitrary: s)
  case Nil
  then show ?case by simp
next
  case (Cons kd rs)
  from Cons.prems obtain s1 where s1: "remove_device kd s = Inr s1" and rest: "remove_devices rs s1 = Inr s'"
    by (auto split: sum.splits)
  from s1 have "timer_interval s1 = timer_interval s \<and> timer_single_shot s1 = timer_single_shot s"
    by (auto simp: remove_device_def collaborator_defs Let_def split: if_splits)
  with Cons.IH [OF rest] show ?case by simp
qed

lemma reconcile_timer:
  assumes "onGetRemoteClustersFinished mk clusters s = Inr s'"
  shows "timer_interval s' = timer_interval s \<and> timer_single_shot s' = timer_single_shot s"
proof -
  obtain removed added updates
    where fc: "findChanges (remote_clusters s) (online_clusters clusters) = (removed, added, updates)"
    by (cases "findChanges (remote_clusters s) (online_clusters clusters)") auto
  from assms fc obtain s1 where s1: "remove_devices removed s = Inr s1"
    and s': "s' = connectToActiveMachine mk (apply_updates updates (add_clusters added s1))"
    by (auto simp: onGetRemoteClustersFinished_def split: sum.splits)
  from remove_devices_timer [OF s1] show ?thesis by (simp add: s')
qed

lemma onLoginStateChanged_timer:
  assumes "onLoginStateChanged mk b s = Inr s'"
  shows "timer_interval s' = timer_interval s \<and> timer_single_shot s' = timer_single_shot s"
proof (cases b)
  case True
  with assms show ?thesis by (auto simp: login_ok)
next
  case False
  with assms have "onGetRemoteClustersFinished mk [] (if timer_active s then timer_stop s else s) = Inr s'"
    by (simp add: onLoginStateChanged_def)
  from reconcile_timer [OF this] show ?thesis by (simp add: collaborator_defs)
qed

lemma start_timer:
  assumes "start mk s = Inr s'"
  shows "timer_interval s' = timer_interval s \<and> timer_single_shot s' = timer_single_shot s"
proof (cases "running s")
  case True
  with assms show ?thesis by (simp add: start_def)
next
  case False
  with assms have "onLoginStateChanged mk (logged_in s)
      (emit (SignalConnect TimerTimeout) (emit (SignalConnect GlobalContainerStackChanged)
             (emit (SignalConnect LoginStateChanged) s))) = Inr s'"
    by (simp add: start_def)
  from onLoginStateChanged_timer [OF this] show ?thesis by (simp add: emit_def)
qed

lemma start_unfold:
  "start mk s =
     (if running s then Inr s
      else onLoginStateChanged mk (logged_in s)
             (s\<lparr>effects := effects s @ [SignalConnect LoginStateChanged,
                                          SignalConnect GlobalContainerStackChanged,
                                          SignalConnect TimerTimeout]\<rparr>))"
  by (simp add: start_def emit_def)

subsection \<open>The reconciliation does not read the running flag\<close>

lemma remove_device_flag:
  "remove_device kd (s\<lparr>running := r\<rparr>) = map_sum id (running_update (\<lambda>_. r)) (remove_device kd s)"
  by (simp add: remove_device_def collaborator_defs Let_def)

lemma remove_devices_flag:
  "remove_devices rs (s\<lparr>running := r\<rparr>) = map_sum id (running_update (\<lambda>_. r)) (remove_devices rs s)"
proof (induction rs arbitrary: s)
  case Nil
  show ?case by simp
next
  case (Cons kd rs)
  show ?case
  proof (cases "remove_device kd s")
    case (Inl e)
    then show ?thesis by (simp add: remove_device_flag)
  next
    case (Inr s1)
    then show ?thesis by (simp add: remove_device_flag Cons.IH)
  qed
qed

lemma add_cluster_flag:
  "add_cluster c (s\<lparr>running := r\<rparr>) = (add_cluster c s)\<lparr>running := r\<rparr>"
  by (simp add: add_cluster_def collaborator_defs Let_def)

lemma add_clusters_flag:
  "add_clusters cs (s\<lparr>running := r\<rparr>) = (add_clusters cs s)\<lparr>running := r\<rparr>"
  by (induction cs arbitrary: s) (simp_all add: add_cluster_flag)

lemma set_host_name_flag:
  "set_host_name k d h (s\<lparr>running := r\<rparr>) = (set_host_name k d h s)\<lparr>running := r\<rparr>"
  by (simp add: collaborator_defs)

lemma apply_updates_flag:
  "apply_updates us (s\<lparr>running := r\<rparr>) = (apply_updates us s)\<lparr>running := r\<rparr>"
  by (induction us s rule: apply_updates.induct) (simp_all add: set_host_name_flag)

lemma connectByNetworkKey_flag:
  "connectByNetworkKey mk m (s\<lparr>running := r\<rparr>) = (connectByNetworkKey mk m s)\<lparr>running := r\<rparr>"
  by (simp add: connectByNetworkKey_def collaborator_defs split: option.splits prod.splits)

lemma connectToActiveMachine_flag:
  "connectToActiveMachine mk (s\<lparr>running := r\<rparr>) = (connectToActiveMachine mk s)\<lparr>running := r\<rparr>"
  by (simp add: connectToActiveMachine_def connectByNetworkKey_flag collaborator_defs
      split: option.splits)

lemma reconcile_flag:
  "onGetRemoteClustersFinished mk clusters (s\<lparr>running := r\<rparr>) =
     map_sum id (running_update (\<lambda>_. r)) (onGetRemoteClustersFinished mk clusters s)"
proof -
  obtain removed added updates
    where fc: "findChanges (remote_clusters s) (online_clusters clusters) = (removed, added, updates)"
    by (cases "findChanges (remote_clusters s) (online_clusters clusters)") auto
  show ?thesis
  proof (cases "remove_devices removed s")
    case (Inl e)
    then show ?thesis
      by (simp add: onGetRemoteClustersFinished_def fc remove_devices_flag)
  next
    case (Inr s1)
    then show ?thesis
      by (simp add: onGetRemoteClustersFinished_def fc remove_devices_flag add_clusters_flag
          apply_updates_flag connectToActiveMachine_flag)
  qed
qed

lemma reconcile_table:
  assumes "table_inv (remote_clusters s)"
  shows "\<exists>s'. onGetRemoteClustersFinished mk clusters s = Inr s'
           \<and> fst ` set (remote_clusters s') = cluster_id ` {c \<in> set clusters. is_online c}"
proof -
  from reconcile_total [OF assms, of mk clusters]
  obtain s' where s': "onGetRemoteClustersFinished mk clusters s = Inr s'" by blast
  from reconcile_keys [OF assms s'] s' show ?thesis by blast
qed

subsection \<open>Resolution case by case\<close>

lemma find_first:
  "\<forall>x \<in> set pre. \<not> P x \<Longrightarrow> P y \<Longrightarrow> find P (pre @ y # post) = Some y"
  by (induction pre) simp_all

lemma map_entry_first:
  "k \<notin> fst ` set pre \<Longrightarrow> AList.map_entry k f (pre @ (k, d) # post) = pre @ (k, f d) # post"
  by (induction pre) auto

lemma resolve_unbound:
  "active_machine s = Some m \<Longrightarrow> unbound m s \<Longrightarrow>
     connectToActiveMachine mk s = connectByNetworkKey mk m s"
  by (auto simp: connectToActiveMachine_def unbound_def split: option.splits)

lemma resolve_no_machine:
  "active_machine s = None \<Longrightarrow> connectToActiveMachine mk s = s"
  by (simp add: connectToActiveMachine_def)

lemma resolve_stored:
  assumes "active_machine s = Some m" and "um_cloud_cluster_id m = Some cid"
    and "map_of (remote_clusters s) cid = Some d"
  shows "connectToActiveMachine mk s =
           (if connected d then s
            else s\<lparr>remote_clusters := AList.map_entry cid (\<lambda>x. x\<lparr>connected := True\<rparr>) (remote_clusters s),
                   effects := effects s @ [DeviceConnect (key d)]\<rparr>)"
  using assms by (simp add: connectToActiveMachine_def collaborator_defs)

lemma resolve_by_key:
  assumes "um_network_key m = Some nk" and "nk \<noteq> []"
    and "remote_clusters s = pre @ (k, d) # post"
    and "\<forall>x \<in> set pre. \<not> mk (snd x) nk" and "mk d nk"
  shows "connectByNetworkKey mk m s =
           s\<lparr>active_machine := Some (m\<lparr>um_cloud_cluster_id := Some (key d)\<rparr>),
              remote_clusters := AList.map_entry k (\<lambda>x. x\<lparr>connected := True\<rparr>) (remote_clusters s),
              effects := effects s @ [SetMetaDataEntry META_CLUSTER_ID (key d), DeviceConnect (key d)]\<rparr>"
proof -
  have "find (\<lambda>kd. mk (snd kd) nk) (remote_clusters s) = Some (k, d)"
    unfolding assms(3) by (rule find_first) (use assms(4,5) in simp_all)
  with assms(1,2) show ?thesis
    by (simp add: connectByNetworkKey_def collaborator_defs)
qed

lemma resolve_no_key:
  "um_network_key m = None \<or> um_network_key m = Some [] \<Longrightarrow> connectByNetworkKey mk m s = s"
  by (auto simp: connectByNetworkKey_def)

lemma resolve_no_match:
  assumes "um_network_key m = Some nk" and "\<forall>x \<in> set (remote_clusters s). \<not> mk (snd x) nk"
  shows "connectByNetworkKey mk m s = s"
proof -
  from assms(2) have "find (\<lambda>kd. mk (snd kd) nk) (remote_clusters s) = None"
    by (auto simp: find_None_iff)
  with assms(1) show ?thesis by (simp add: connectByNetworkKey_def)
qed

subsection \<open>The stored identity\<close>

lemma find_in_set: "find P xs = Some x \<Longrightarrow> x \<in> set xs"
  by (induction xs) (auto split: if_splits)

lemma connectByNetworkKey_cases:
  "connectByNetworkKey mk m s = s \<or>
     (\<exists>k d. (k, d) \<in> set (remote_clusters s)
        \<and> active_machine (connectByNetworkKey mk m s) = Some (m\<lparr>um_cloud_cluster_id := Some (key d)\<rparr>))"
proof (cases "um_network_key m")
  case None
  then show ?thesis by (simp add: connectByNetworkKey_def)
next
  case (Some nk)
  show ?thesis
  proof (cases "nk = []")
    case True
    with Some show ?thesis by (simp add: connectByNetworkKey_def)
  next
    case False
    show ?thesis
    proof (cases "find (\<lambda>kd. mk (snd kd) nk) (remote_clusters s)")
      case None
      with Some False show ?thesis by (simp add: connectByNetworkKey_def)
    next
      case (Some kd)
      obtain k d where kd: "kd = (k, d)" by (cases kd)
      from find_in_set [OF Some] kd have "(k, d) \<in> set (remote_clusters s)" by simp
      moreover from Some kd \<open>um_network_key m = Some nk\<close> False
      have "active_machine (connectByNetworkKey mk m s) = Some (m\<lparr>um_cloud_cluster_id := Some (key d)\<rparr>)"
        by (simp add: connectByNetworkKey_def collaborator_defs)
      ultimately show ?thesis by blast
    qed
  qed
qed

lemma resolve_keeps_stored:
  assumes "active_machine s = Some m" and "um_cloud_cluster_id m = Some cid"
    and "cid \<in> fst ` set (remote_clusters s)"
  shows "active_machine (connectToActiveMachine mk s) = active_machine s"
proof -
  from assms(3) obtain d where "map_of (remote_clusters s) cid = Some d"
    by (cases "map_of (remote_clusters s) cid") (auto simp: map_of_eq_None_keys)
  with assms(1,2) show ?thesis
    by (simp add: connectToActiveMachine_def collaborator_defs)
qed

lemma resolve_rebinds_only_unbound:
  assumes "active_machine (connectToActiveMachine mk s) \<noteq> active_machine s"
  shows "\<exists>m. active_machine s = Some m \<and> unbound m s"
proof (cases "active_machine s")
  case None
  with assms show ?thesis by (simp add: connectToActiveMachine_def)
next
  case (Some m)
  show ?thesis
  proof (cases "unbound m s")
    case True
    with Some show ?thesis by simp
  next
    case False
    then obtain cid where cid: "um_cloud_cluster_id m = Some cid"
      and "map_of (remote_clusters s) cid \<noteq> None"
      by (auto simp: unbound_def split: option.splits)
    then have "cid \<in> fst ` set (remote_clusters s)"
      by (simp add: map_of_eq_None_keys)
    from resolve_keeps_stored [OF Some cid this, of mk] assms show ?thesis by simp
  qed
qed

lemma reconcile_keeps_stored:
  assumes inv: "table_inv (remote_clusters s)"
    and m: "active_machine s = Some m" and cid: "um_cloud_cluster_id m = Some cid"
    and on: "cid \<in> cluster_id ` {c \<in> set clusters. is_online c}"
  shows "\<exists>s'. onGetRemoteClustersFinished mk clusters s = Inr s' \<and> active_machine s' = Some m"
proof -
  obtain removed added updates
    where fc: "findChanges (remote_clusters s) (online_clusters clusters) = (removed, added, updates)"
    by (cases "findChanges (remote_clusters s) (online_clusters clusters)") auto
  let ?s1 = "s\<lparr>remote_clusters := filter (\<lambda>kd. fst kd \<notin> fst ` set removed) (remote_clusters s),
                 output_devices := output_devices s - fst ` set removed,
                 effects := effects s @ concat (map teardown removed)\<rparr>"
  let ?s2 = "apply_updates updates (add_clusters added ?s1)"
  have res: "onGetRemoteClustersFinished mk clusters s = Inr (connectToActiveMachine mk ?s2)"
    by (rule reconcile_ok [OF inv fc])
  have keys: "fst ` set (remote_clusters ?s2) = cluster_id ` {c \<in> set clusters. is_online c}"
    using reconcile_keys_aux(1) [OF fc] by (simp add: apply_updates_keys add_clusters_keys)
  have m2: "active_machine ?s2 = Some m"
    using m by simp
  from on keys have "cid \<in> fst ` set (remote_clusters ?s2)" by simp
  from resolve_keeps_stored [OF m2 cid this, of mk] m2 res show ?thesis by simp
qed

lemma resolve_twice:
  assumes inv: "table_inv (remote_clusters s)"
  shows "active_machine (connectToActiveMachine mk (connectToActiveMachine mk s))
           = active_machine (connectToActiveMachine mk s)"
proof (cases "active_machine s")
  case None
  then show ?thesis by (simp add: resolve_no_machine)
next
  case (Some m)
  let ?s1 = "connectToActiveMachine mk s"
  have keys: "fst ` set (remote_clusters ?s1) = fst ` set (remote_clusters s)"
    by (rule connectToActiveMachine_keys)
  show ?thesis
  proof (cases "unbound m s")
    case False
    then obtain cid where cid: "um_cloud_cluster_id m = Some cid"
      and "map_of (remote_clusters s) cid \<noteq> None"
      by (auto simp: unbound_def split: option.splits)
    then have cin: "cid \<in> fst ` set (remote_clusters s)"
      by (simp add: map_of_eq_None_keys)
    from resolve_keeps_stored [OF Some cid cin, of mk] Some
    have m1: "active_machine ?s1 = Some m" by simp
    from cin keys have "cid \<in> fst ` set (remote_clusters ?s1)" by simp
    from resolve_keeps_stored [OF m1 cid this] show ?thesis .
  next
    case True
    have s1: "?s1 = connectByNetworkKey mk m s"
      by (rule resolve_unbound [OF Some True])
    from connectByNetworkKey_cases [of mk m s]
    show ?thesis
    proof
      assume "connectByNetworkKey mk m s = s"
      with s1 have "?s1 = s" by simp
      then show ?thesis by simp
    next
      assume "\<exists>k d. (k, d) \<in> set (remote_clusters s)
        \<and> active_machine (connectByNetworkKey mk m s) = Some (m\<lparr>um_cloud_cluster_id := Some (key d)\<rparr>)"
      then obtain k d where kd: "(k, d) \<in> set (remote_clusters s)"
        and am: "active_machine ?s1 = Some (m\<lparr>um_cloud_cluster_id := Some (key d)\<rparr>)"
        unfolding s1 by blast
      from inv kd have "key d = k" by (auto simp: table_inv_def)
      with kd have "key d \<in> fst ` set (remote_clusters s)" by force
      with keys have kin: "key d \<in> fst ` set (remote_clusters ?s1)" by simp
      have st: "um_cloud_cluster_id (m\<lparr>um_cloud_cluster_id := Some (key d)\<rparr>) = Some (key d)" by simp
      from resolve_keeps_stored [OF am st kin] show ?thesis .
    qed
  qed
qed

subsection \<open>Offline records\<close>

lemma online_clusters_skip:
  "\<not> is_online c \<Longrightarrow> online_clusters (xs @ c # ys) = online_clusters (xs @ ys)"
  by (simp add: online_clusters_def)

lemma removed_when_not_online:
  assumes "(k, d) \<in> set (remote_clusters s)"
    and "\<forall>c \<in> set clusters. cluster_id c = k \<longrightarrow> \<not> is_online c"
  shows "(k, d) \<in> set (fst (findChanges (remote_clusters s) (online_clusters clusters)))"
proof -
  from assms(2) have "k \<notin> cluster_id ` {c \<in> set clusters. is_online c}" by auto
  then have "k \<notin> fst ` set (online_clusters clusters)"
    by (simp add: online_clusters_keys)
  with assms(1) show ?thesis
    by (simp add: findChanges_removed)
qed

subsection \<open>The calls of one reconciliation\<close>

lemma closed_keys_append [simp]: "closed_keys (xs @ ys) = closed_keys xs @ closed_keys ys"
  by (simp add: closed_keys_def)

lemma disconnected_keys_append [simp]:
  "disconnected_keys (xs @ ys) = disconnected_keys xs @ disconnected_keys ys"
  by (simp add: disconnected_keys_def)

lemma closed_keys_teardown:
  "closed_keys (concat (map teardown rs)) = map (\<lambda>kd. key (snd kd)) rs"
  by (induction rs) (simp_all add: closed_keys_def teardown_def)

lemma disconnected_keys_teardown:
  "disconnected_keys (concat (map teardown rs))
     = map (\<lambda>kd. key (snd kd)) (filter (\<lambda>kd. connected (snd kd)) rs)"
  by (induction rs) (simp_all add: disconnected_keys_def teardown_def)

lemma keys_of_added [simp]:
  "closed_keys (map (\<lambda>c. AddOutputDevice (cluster_id c)) cs) = []"
  "disconnected_keys (map (\<lambda>c. AddOutputDevice (cluster_id c)) cs) = []"
  by (induction cs) (simp_all add: closed_keys_def disconnected_keys_def)

lemma keys_of_updates [simp]:
  "closed_keys (map update_effect us) = []"
  "disconnected_keys (map update_effect us) = []"
  by (induction us) (simp_all add: closed_keys_def disconnected_keys_def update_effect_def)

lemma keys_of_resolver:
  "list_all resolver_effect res \<Longrightarrow> closed_keys res = [] \<and> disconnected_keys res = []"
  by (induction res)
     (auto simp: closed_keys_def disconnected_keys_def resolver_effect_def split: effect.splits)

lemma reconcile_effects:
  assumes inv: "table_inv (remote_clusters s)"
    and fc: "findChanges (remote_clusters s) (online_clusters clusters) = (removed, added, updates)"
  shows "\<exists>s' res. onGetRemoteClustersFinished mk clusters s = Inr s'
           \<and> effects s' = effects s @ concat (map teardown removed)
                 @ map (\<lambda>c. AddOutputDevice (cluster_id c)) added
                 @ map update_effect updates @ res
           \<and> list_all resolver_effect res
           \<and> fst ` set (remote_clusters s') \<inter> fst ` set removed = {}
           \<and> output_devices s' \<inter> fst ` set removed = {}"
proof -
  let ?s1 = "s\<lparr>remote_clusters := filter (\<lambda>kd. fst kd \<notin> fst ` set removed) (remote_clusters s),
                 output_devices := output_devices s - fst ` set removed,
                 effects := effects s @ concat (map teardown removed)\<rparr>"
  let ?s2 = "apply_updates updates (add_clusters added ?s1)"
  let ?s' = "connectToActiveMachine mk ?s2"
  have res: "onGetRemoteClustersFinished mk clusters s = Inr ?s'"
    by (rule reconcile_ok [OF inv fc])
  have e2: "effects ?s2 = effects s @ concat (map teardown removed)
              @ map (\<lambda>c. AddOutputDevice (cluster_id c)) added @ map update_effect updates"
    by (simp add: apply_updates_effects add_clusters_effects)
  from connectToActiveMachine_effects [of mk ?s2]
  obtain r where r: "effects ?s' = effects ?s2 @ r" and rr: "list_all resolver_effect r" by blast
  from fc have rem: "removed = filter (\<lambda>kd. fst kd \<notin> fst ` set (online_clusters clusters)) (remote_clusters s)"
    using findChanges_removed [of "remote_clusters s" "online_clusters clusters"] by simp
  have remk: "fst ` set removed \<inter> cluster_id ` {c \<in> set clusters. is_online c} = {}"
    unfolding rem online_clusters_keys [symmetric] by auto
  have keys: "fst ` set (remote_clusters ?s') = cluster_id ` {c \<in> set clusters. is_online c}"
    by (rule reconcile_keys [OF inv res])
  have "cluster_id ` set added \<subseteq> cluster_id ` {c \<in> set clusters. is_online c}"
    using reconcile_keys_aux(2) [OF fc] by blast
  with remk have "cluster_id ` set added \<inter> fst ` set removed = {}" by blast
  then have reg: "output_devices ?s' \<inter> fst ` set removed = {}"
    by (auto simp: add_clusters_registry)
  from keys remk have tb: "fst ` set (remote_clusters ?s') \<inter> fst ` set removed = {}" by blast
  from res e2 r rr tb reg show ?thesis
    by (intro exI [of _ ?s'] exI [of _ r]) simp
qed

section \<open>The claims\<close>

subsection \<open>API errors\<close>

lemma join_length:
  "length (join sep xs) = sum_list (map length xs) + length sep * (length xs - 1)"
  by (induction sep xs rule: join.induct) simp_all

text \<open>
  Claim C4. A failed poll hands a list of error records to \<open>onApiError\<close>. The device table
  is left unchanged; indeed nothing but the log changes. Exactly one notification is
  shown, and its text is the titles of the errors in order, joined by \<open>''. ''\<close>: the
  errors titled "timeout" and "auth expired" give the text "timeout. auth expired".
\<close>

theorem api_error_single_notification:
  "remote_clusters (onApiError errors s) = remote_clusters s
   \<and> onApiError errors s = s\<lparr>effects := effects s @ [MessageShow (join ''. '' (map title errors))]\<rparr>
   \<and> messages (effects (onApiError errors s)) = messages (effects s) @ [join ''. '' (map title errors)]
   \<and> length (join ''. '' (map title errors))
       = sum_list (map (length \<circ> title) errors) + 2 * (length errors - 1)
   \<and> messages (effects (onApiError [\<lparr>title = ''timeout''\<rparr>, \<lparr>title = ''auth expired''\<rparr>] s))
       = messages (effects s) @ [''timeout. auth expired'']"
  by (simp add: onApiError_def emit_def messages_def join_length comp_def)


subsection \<open>Stopping\<close>

text \<open>
  Claim C1 (the code departs from it). After \<open>start\<close> the flag \<open>running\<close> is still
  unset, since no method assigns it; so in every state the manager reaches from its
  construction \<open>stop\<close> returns at its guard and changes nothing. The witness is the manager
  that was started and has received one online cluster: \<open>stop\<close> leaves its device in the
  table and in the registry.
\<close>

theorem stop_changes_nothing_after_construction:
  "run mk ops (init is_logged_in machine) = Inr s \<Longrightarrow> stop mk s = Inr s"
proof -
  assume "run mk ops (init is_logged_in machine) = Inr s"
  from run_running [OF this] have "\<not> running s" by (simp add: init_def)
  then show ?thesis by (simp add: stop_def)
qed

theorem stop_changes_nothing_witness:
  "run no_match [Start, ClustersReceived [cluster_A]] (init True None) = Inr manager_A
   \<and> stop no_match manager_A = Inr manager_A
   \<and> remote_clusters manager_A = [(''A'', device_A)]
   \<and> output_devices manager_A = {''A''}"
proof -
  have r: "run no_match [Start, ClustersReceived [cluster_A]] (init True None) = Inr manager_A"
    by (rule run_example_A)
  from stop_changes_nothing_after_construction [OF r]
  have st: "stop no_match manager_A = Inr manager_A" .
  have tbl: "remote_clusters manager_A = [(''A'', device_A)]"
    and reg: "output_devices manager_A = {''A''}"
    by (simp_all add: manager_A_def)
  from r st tbl reg show ?thesis by blast
qed

subsection \<open>Table and registry\<close>

text \<open>
  Claim C10. A key is in the device table exactly when the registry holds it, and every
  entry of the table maps its key to a device with that key. The freshly constructed
  manager has the property, every operation returns normally from a state that has it and
  gives a state that has it, and so does every sequence of operations.
\<close>

theorem table_registry_synchrony:
  "manager_inv (init is_logged_in machine)
   \<and> (manager_inv s \<longrightarrow> (\<exists>s'. perform mk op s = Inr s' \<and> manager_inv s'))
   \<and> (manager_inv s \<longrightarrow> (\<exists>s'. run mk ops s = Inr s' \<and> manager_inv s'))"
  using perform_preserves [of s mk op] run_preserves [of s mk ops]
  by (simp add: manager_inv_def table_inv_def init_def)

theorem table_registry_synchrony_witness:
  "manager_inv manager_A
   \<and> (\<exists>s'. perform host_prefix (ClustersReceived [cluster_B]) manager_A = Inr s' \<and> manager_inv s')
   \<and> (\<exists>s'. run host_prefix [ClustersReceived [cluster_B], Stop] manager_A = Inr s' \<and> manager_inv s')"
proof -
  have inv: "manager_inv manager_A"
    by (simp add: manager_inv_def table_inv_def manager_A_def device_A_def)
  with table_registry_synchrony [of True None manager_A host_prefix "ClustersReceived [cluster_B]"
      "[ClustersReceived [cluster_B], Stop]"]
  show ?thesis by blast
qed

subsection \<open>Logging out\<close>

text \<open>
  Claim C9. When the login state becomes false the handler disarms the timer if it is
  armed and then runs the reconciliation on the empty list of clusters. The diff of the
  table against the empty result has every device of the table as removed, nothing
  added and nothing updated. From a well-formed table the handler returns; afterwards
  the timer is disarmed, the table is empty, the keys of the table have left the registry,
  and the log shows the timer stopped first and then each device torn down.
\<close>

theorem logout_drains_table:
  "findChanges (remote_clusters s) (online_clusters []) = (remote_clusters s, [], [])
   \<and> (table_inv (remote_clusters s) \<longrightarrow>
        onLoginStateChanged mk False s =
          Inr (s\<lparr>remote_clusters := [],
                 output_devices := output_devices s - fst ` set (remote_clusters s),
                 timer_active := False,
                 effects := effects s @ (if timer_active s then [TimerStop] else [])
                              @ concat (map teardown (remote_clusters s))\<rparr>))"
  using logout_ok [of s mk] by (simp add: findChanges_empty)

theorem logout_drains_table_witness:
  "table_inv (remote_clusters manager_AB)
   \<and> findChanges (remote_clusters manager_AB) (online_clusters []) = (remote_clusters manager_AB, [], [])
   \<and> onLoginStateChanged host_prefix False manager_AB =
        Inr (manager_AB\<lparr>remote_clusters := [], output_devices := {}, timer_active := False,
               effects := [TimerStop, DeviceClose ''A'', RemoveOutputDevice ''A'',
                           DeviceDisconnect ''B'', DeviceClose ''B'', RemoveOutputDevice ''B'']\<rparr>)"
proof -
  have inv: "table_inv (remote_clusters manager_AB)"
    by (simp add: table_inv_def manager_AB_def device_A_def device_B_def)
  have reg: "output_devices manager_AB - fst ` set (remote_clusters manager_AB) = {}"
    by (simp add: manager_AB_def)
  have eff: "effects manager_AB @ (if timer_active manager_AB then [TimerStop] else [])
               @ concat (map teardown (remote_clusters manager_AB))
             = [TimerStop, DeviceClose ''A'', RemoveOutputDevice ''A'',
                DeviceDisconnect ''B'', DeviceClose ''B'', RemoveOutputDevice ''B'']"
    by (simp add: manager_AB_def teardown_def device_A_def device_B_def)
  from logout_drains_table [of manager_AB host_prefix] inv
  show ?thesis by (simp add: reg eff)
qed

subsection \<open>Starting\<close>

text \<open>
  Claim C3, as the code has it. With the flag \<open>running\<close> set, \<open>start\<close> changes
  nothing. With the flag unset it subscribes to the login-state event and to the
  active-machine-changed event, connects the poll to the timeout of the timer (built
  repeating, with an interval of 50 seconds), and at once evaluates the current login
  status. That evaluation arms the timer, unless it is armed already, and issues a poll
  when the account is logged in; when the account is logged out it disarms the timer and
  drains the table, so the timer is not armed after \<open>start\<close>.
\<close>

theorem start_behaviour:
  "(running s \<longrightarrow> start mk s = Inr s)
   \<and> (\<not> running s \<longrightarrow>
        start mk s = onLoginStateChanged mk (logged_in s)
                       (s\<lparr>effects := effects s @ [SignalConnect LoginStateChanged,
                                                    SignalConnect GlobalContainerStackChanged,
                                                    SignalConnect TimerTimeout]\<rparr>))
   \<and> (\<not> running s \<and> logged_in s \<longrightarrow>
        start mk s =
          Inr (s\<lparr>timer_active := True,
                 effects := effects s @ [SignalConnect LoginStateChanged,
                                         SignalConnect GlobalContainerStackChanged,
                                         SignalConnect TimerTimeout]
                              @ (if timer_active s then [] else [TimerStart]) @ [GetClusters]\<rparr>))
   \<and> (\<not> running s \<and> \<not> logged_in s \<and> table_inv (remote_clusters s) \<longrightarrow>
        start mk s =
          Inr (s\<lparr>remote_clusters := [],
                 output_devices := output_devices s - fst ` set (remote_clusters s),
                 timer_active := False,
                 effects := effects s @ [SignalConnect LoginStateChanged,
                                         SignalConnect GlobalContainerStackChanged,
                                         SignalConnect TimerTimeout]
                              @ (if timer_active s then [TimerStop] else [])
                              @ concat (map teardown (remote_clusters s))\<rparr>))
   \<and> (start mk s = Inr s' \<longrightarrow>
        timer_interval s' = timer_interval s \<and> timer_single_shot s' = timer_single_shot s)
   \<and> timer_interval (init is_logged_in machine) = 50 * 1000
   \<and> \<not> timer_single_shot (init is_logged_in machine)"
proof -
  let ?s0 = "s\<lparr>effects := effects s @ [SignalConnect LoginStateChanged,
                                         SignalConnect GlobalContainerStackChanged,
                                         SignalConnect TimerTimeout]\<rparr>"
  have a: "running s \<longrightarrow> start mk s = Inr s"
    by (simp add: start_unfold)
  have b: "\<not> running s \<longrightarrow> start mk s = onLoginStateChanged mk (logged_in s) ?s0"
    by (simp add: start_unfold)
  have c: "\<not> running s \<and> logged_in s \<longrightarrow>
        start mk s =
          Inr (s\<lparr>timer_active := True,
                 effects := effects s @ [SignalConnect LoginStateChanged,
                                         SignalConnect GlobalContainerStackChanged,
                                         SignalConnect TimerTimeout]
                              @ (if timer_active s then [] else [TimerStart]) @ [GetClusters]\<rparr>)"
    by (simp add: start_unfold login_ok)
  have d: "\<not> running s \<and> \<not> logged_in s \<and> table_inv (remote_clusters s) \<longrightarrow>
        start mk s =
          Inr (s\<lparr>remote_clusters := [],
                 output_devices := output_devices s - fst ` set (remote_clusters s),
                 timer_active := False,
                 effects := effects s @ [SignalConnect LoginStateChanged,
                                         SignalConnect GlobalContainerStackChanged,
                                         SignalConnect TimerTimeout]
                              @ (if timer_active s then [TimerStop] else [])
                              @ concat (map teardown (remote_clusters s))\<rparr>)"
  proof (intro impI, elim conjE)
    assume nr: "\<not> running s" and nl: "\<not> logged_in s" and inv: "table_inv (remote_clusters s)"
    from inv have "table_inv (remote_clusters ?s0)" by simp
    from logout_ok [OF this, of mk] nr nl show "start mk s =
          Inr (s\<lparr>remote_clusters := [],
                 output_devices := output_devices s - fst ` set (remote_clusters s),
                 timer_active := False,
                 effects := effects s @ [SignalConnect LoginStateChanged,
                                         SignalConnect GlobalContainerStackChanged,
                                         SignalConnect TimerTimeout]
                              @ (if timer_active s then [TimerStop] else [])
                              @ concat (map teardown (remote_clusters s))\<rparr>)"
      by (simp add: start_unfold)
  qed
  have e: "start mk s = Inr s' \<longrightarrow>
        timer_interval s' = timer_interval s \<and> timer_single_shot s' = timer_single_shot s"
    using start_timer [of mk s s'] by blast
  have f: "timer_interval (init is_logged_in machine) = 50 * 1000"
    "\<not> timer_single_shot (init is_logged_in machine)"
    by (simp_all add: init_def CHECK_CLUSTER_INTERVAL_def)
  from a b c d e f show ?thesis by blast
qed

theorem start_behaviour_witness:
  "start host_prefix (manager_A\<lparr>running := True\<rparr>) = Inr (manager_A\<lparr>running := True\<rparr>)
   \<and> start host_prefix (init True None) = Inr manager_started
   \<and> start host_prefix (manager_AB\<lparr>logged_in := False\<rparr>) =
        Inr (manager_AB\<lparr>logged_in := False, remote_clusters := [], output_devices := {},
               timer_active := False,
               effects := [SignalConnect LoginStateChanged, SignalConnect GlobalContainerStackChanged,
                           SignalConnect TimerTimeout, TimerStop,
                           DeviceClose ''A'', RemoveOutputDevice ''A'',
                           DeviceDisconnect ''B'', DeviceClose ''B'', RemoveOutputDevice ''B'']\<rparr>)
   \<and> timer_interval manager_started = 50 * 1000
   \<and> \<not> timer_single_shot manager_started"
proof -
  have a: "start host_prefix (manager_A\<lparr>running := True\<rparr>) = Inr (manager_A\<lparr>running := True\<rparr>)"
    using start_behaviour [of "manager_A\<lparr>running := True\<rparr>" host_prefix, THEN conjunct1] by simp
  have b: "start host_prefix (init True None) = Inr manager_started"
    using start_behaviour [of "init True None" host_prefix, THEN conjunct2, THEN conjunct2, THEN conjunct1]
    by (simp add: init_def manager_started_def CHECK_CLUSTER_INTERVAL_def)
  have inv: "table_inv (remote_clusters (manager_AB\<lparr>logged_in := False\<rparr>))"
    by (simp add: table_inv_def manager_AB_def device_A_def device_B_def)
  have c: "start host_prefix (manager_AB\<lparr>logged_in := False\<rparr>) =
        Inr (manager_AB\<lparr>logged_in := False, remote_clusters := [], output_devices := {},
               timer_active := False,
               effects := [SignalConnect LoginStateChanged, SignalConnect GlobalContainerStackChanged,
                           SignalConnect TimerTimeout, TimerStop,
                           DeviceClose ''A'', RemoveOutputDevice ''A'',
                           DeviceDisconnect ''B'', DeviceClose ''B'', RemoveOutputDevice ''B'']\<rparr>)"
    using start_behaviour [of "manager_AB\<lparr>logged_in := False\<rparr>" host_prefix,
        THEN conjunct2, THEN conjunct2, THEN conjunct2, THEN conjunct1] inv
    by (simp add: manager_AB_def teardown_def device_A_def device_B_def)
  have d: "timer_interval manager_started = 50 * 1000" "\<not> timer_single_shot manager_started"
    by (simp_all add: manager_started_def)
  from a b c d show ?thesis by blast
qed

text \<open>
  Claim C3 as stated fails where the account is logged out: \<open>start\<close> on the freshly
  constructed manager subscribes to the events and leaves the timer disarmed.
\<close>

theorem start_logged_out_counterexample:
  "\<not> running (init False None)
   \<and> start no_match (init False None) = Inr manager_idle
   \<and> \<not> timer_active manager_idle
   \<and> TimerStart \<notin> set (effects manager_idle)"
  by (simp add: manager_defs collaborator_defs manager_idle_def no_match_def)

subsection \<open>A response after stopping\<close>

text \<open>
  Claim C2, as the code has it. The callback that receives a poll response never reads
  the flag \<open>running\<close>: whatever the flag is, the response is applied in the same way, and
  from a well-formed table the callback returns with the table holding exactly the online
  clusters of the response. A response that arrives after \<open>stop\<close> is therefore not ignored.
\<close>

theorem late_response_is_applied:
  "onGetRemoteClustersFinished mk clusters (s\<lparr>running := r\<rparr>) =
     map_sum id (running_update (\<lambda>_. r)) (onGetRemoteClustersFinished mk clusters s)
   \<and> (table_inv (remote_clusters s) \<longrightarrow>
        (\<exists>s'. onGetRemoteClustersFinished mk clusters s = Inr s'
           \<and> fst ` set (remote_clusters s') = cluster_id ` {c \<in> set clusters. is_online c}))"
  using reconcile_table [of s mk clusters] by (simp add: reconcile_flag)

theorem late_response_is_applied_witness:
  "table_inv (remote_clusters manager_started)
   \<and> (\<exists>s'. onGetRemoteClustersFinished no_match [cluster_A] manager_started = Inr s'
         \<and> fst ` set (remote_clusters s') = {''A''})
   \<and> onGetRemoteClustersFinished no_match [cluster_A] (manager_started\<lparr>running := True\<rparr>) =
        map_sum id (running_update (\<lambda>_. True))
          (onGetRemoteClustersFinished no_match [cluster_A] manager_started)"
proof -
  note c2 = late_response_is_applied [where mk = no_match and clusters = "[cluster_A]"
      and s = manager_started and r = True]
  have inv: "table_inv (remote_clusters manager_started)"
    by (simp add: table_inv_def manager_started_def)
  have on: "is_online cluster_A" and idA: "cluster_id cluster_A = ''A''"
    by (simp_all add: cluster_A_def)
  from on have "{c \<in> set [cluster_A]. is_online c} = {cluster_A}"
    by auto
  with idA have ids: "cluster_id ` {c \<in> set [cluster_A]. is_online c} = {''A''}"
    by simp
  from c2 [THEN conjunct2] inv
  have "\<exists>s'. onGetRemoteClustersFinished no_match [cluster_A] manager_started = Inr s'
         \<and> fst ` set (remote_clusters s') = cluster_id ` {c \<in> set [cluster_A]. is_online c}"
    by (rule mp)
  then have b: "\<exists>s'. onGetRemoteClustersFinished no_match [cluster_A] manager_started = Inr s'
         \<and> fst ` set (remote_clusters s') = {''A''}"
    unfolding ids .
  from inv b c2 [THEN conjunct1] show ?thesis by (intro conjI)
qed

text \<open>
  Claim C2 as stated fails. The manager is started with a logged-in account, which issues
  a poll; \<open>stop\<close> is called while the poll is outstanding; the response with one online
  cluster then puts a device into the table. The same happens from a state whose flag
  \<open>running\<close> is set, where \<open>stop\<close> drains the table first.
\<close>

theorem late_response_counterexample:
  "run no_match [Start, Stop] (init True None) = Inr manager_started
   \<and> last (effects manager_started) = GetClusters
   \<and> remote_clusters manager_started = []
   \<and> map_sum id remote_clusters (onGetRemoteClustersFinished no_match [cluster_A] manager_started)
       = Inr [(''A'', device_A)]
   \<and> map_sum id remote_clusters (stop no_match (manager_A\<lparr>running := True\<rparr>)) = Inr []
   \<and> map_sum id remote_clusters
        (run no_match [Stop, ClustersReceived [cluster_A]] (manager_A\<lparr>running := True\<rparr>))
       = Inr [(''A'', device_A)]"
  by (simp add: manager_defs collaborator_defs example_defs manager_started_def)

subsection \<open>The connection resolver\<close>

text \<open>
  Claim C5. The resolver, case by case. Without an active machine it changes nothing.
  When the stored cluster identity of the machine is a key of the table, the device under
  that key is connected if it is not connected yet, and nothing else happens: no scan by
  network key, no write to the metadata. Otherwise, when the machine has a non-empty
  network key, the first device of the table that matches the key gets its key written as
  the stored identity of the machine and is then connected; with distinct table keys only
  that device's slot changes. Without a network key, or without a matching device, the
  resolver changes nothing. The resolver is a total function and has no error result.
\<close>

theorem resolver_behaviour:
  "(active_machine s = None \<longrightarrow> connectToActiveMachine mk s = s)
   \<and> (active_machine s = Some m \<and> um_cloud_cluster_id m = Some cid
        \<and> map_of (remote_clusters s) cid = Some d \<longrightarrow>
        connectToActiveMachine mk s =
          (if connected d then s
           else s\<lparr>remote_clusters := AList.map_entry cid (\<lambda>x. x\<lparr>connected := True\<rparr>) (remote_clusters s),
                  effects := effects s @ [DeviceConnect (key d)]\<rparr>))
   \<and> (active_machine s = Some m \<and> unbound m s \<and> um_network_key m = Some nk \<and> nk \<noteq> []
        \<and> remote_clusters s = pre @ (k, d') # post
        \<and> (\<forall>x \<in> set pre. \<not> mk (snd x) nk) \<and> mk d' nk \<and> distinct (map fst (remote_clusters s)) \<longrightarrow>
        connectToActiveMachine mk s =
          s\<lparr>active_machine := Some (m\<lparr>um_cloud_cluster_id := Some (key d')\<rparr>),
             remote_clusters := pre @ (k, d'\<lparr>connected := True\<rparr>) # post,
             effects := effects s @ [SetMetaDataEntry META_CLUSTER_ID (key d'), DeviceConnect (key d')]\<rparr>)
   \<and> (active_machine s = Some m \<and> unbound m s
        \<and> (um_network_key m = None \<or> um_network_key m = Some []) \<longrightarrow>
        connectToActiveMachine mk s = s)
   \<and> (active_machine s = Some m \<and> unbound m s \<and> um_network_key m = Some nk
        \<and> (\<forall>x \<in> set (remote_clusters s). \<not> mk (snd x) nk) \<longrightarrow>
        connectToActiveMachine mk s = s)"
proof (intro conjI impI)
  assume "active_machine s = None"
  then show "connectToActiveMachine mk s = s" by (rule resolve_no_machine)
next
  assume "active_machine s = Some m \<and> um_cloud_cluster_id m = Some cid
        \<and> map_of (remote_clusters s) cid = Some d"
  then show "connectToActiveMachine mk s =
          (if connected d then s
           else s\<lparr>remote_clusters := AList.map_entry cid (\<lambda>x. x\<lparr>connected := True\<rparr>) (remote_clusters s),
                  effects := effects s @ [DeviceConnect (key d)]\<rparr>)"
    using resolve_stored [of s m cid d mk] by blast
next
  assume a: "active_machine s = Some m \<and> unbound m s \<and> um_network_key m = Some nk \<and> nk \<noteq> []
        \<and> remote_clusters s = pre @ (k, d') # post
        \<and> (\<forall>x \<in> set pre. \<not> mk (snd x) nk) \<and> mk d' nk \<and> distinct (map fst (remote_clusters s))"
  then have tbl: "remote_clusters s = pre @ (k, d') # post"
    and dist: "distinct (map fst (remote_clusters s))" by blast+
  from dist have "k \<notin> fst ` set pre" unfolding tbl by auto
  then have me: "AList.map_entry k (\<lambda>x. x\<lparr>connected := True\<rparr>) (remote_clusters s)
                 = pre @ (k, d'\<lparr>connected := True\<rparr>) # post"
    unfolding tbl by (rule map_entry_first)
  from a have "connectToActiveMachine mk s = connectByNetworkKey mk m s"
    by (simp add: resolve_unbound)
  also have "\<dots> = s\<lparr>active_machine := Some (m\<lparr>um_cloud_cluster_id := Some (key d')\<rparr>),
              remote_clusters := AList.map_entry k (\<lambda>x. x\<lparr>connected := True\<rparr>) (remote_clusters s),
              effects := effects s @ [SetMetaDataEntry META_CLUSTER_ID (key d'), DeviceConnect (key d')]\<rparr>"
  proof (rule resolve_by_key [OF _ _ tbl])
    from a show "um_network_key m = Some nk" by blast
    from a show "nk \<noteq> []" by blast
    from a show "\<forall>x \<in> set pre. \<not> mk (snd x) nk" by blast
    from a show "mk d' nk" by blast
  qed
  finally show "connectToActiveMachine mk s =
          s\<lparr>active_machine := Some (m\<lparr>um_cloud_cluster_id := Some (key d')\<rparr>),
             remote_clusters := pre @ (k, d'\<lparr>connected := True\<rparr>) # post,
             effects := effects s @ [SetMetaDataEntry META_CLUSTER_ID (key d'), DeviceConnect (key d')]\<rparr>"
    unfolding me .
next
  assume a: "active_machine s = Some m \<and> unbound m s
        \<and> (um_network_key m = None \<or> um_network_key m = Some [])"
  then have "connectToActiveMachine mk s = connectByNetworkKey mk m s"
    by (simp add: resolve_unbound)
  with a show "connectToActiveMachine mk s = s"
    by (simp add: resolve_no_key)
next
  assume a: "active_machine s = Some m \<and> unbound m s \<and> um_network_key m = Some nk
        \<and> (\<forall>x \<in> set (remote_clusters s). \<not> mk (snd x) nk)"
  then have "connectToActiveMachine mk s = connectByNetworkKey mk m s"
    by (simp add: resolve_unbound)
  with a show "connectToActiveMachine mk s = s"
    using resolve_no_match [of m nk s mk] by simp
qed

theorem resolver_behaviour_witness:
  "connectToActiveMachine host_prefix manager_AB = manager_AB
   \<and> connectToActiveMachine host_prefix (manager_AB\<lparr>active_machine := Some machine_bound_A\<rparr>) =
        manager_AB\<lparr>active_machine := Some machine_bound_A,
                    remote_clusters := [(''A'', device_A\<lparr>connected := True\<rparr>), (''B'', device_B)],
                    effects := [DeviceConnect ''A'']\<rparr>
   \<and> connectToActiveMachine host_prefix (manager_AB\<lparr>active_machine := Some machine_unbound\<rparr>) =
        manager_AB\<lparr>active_machine := Some (machine_unbound\<lparr>um_cloud_cluster_id := Some ''B''\<rparr>),
                    remote_clusters := [(''A'', device_A), (''B'', device_B\<lparr>connected := True\<rparr>)],
                    effects := [SetMetaDataEntry META_CLUSTER_ID ''B'', DeviceConnect ''B'']\<rparr>
   \<and> connectToActiveMachine host_prefix (manager_AB\<lparr>active_machine := Some machine_no_key\<rparr>) =
        manager_AB\<lparr>active_machine := Some machine_no_key\<rparr>
   \<and> connectToActiveMachine no_match (manager_AB\<lparr>active_machine := Some machine_unbound\<rparr>) =
        manager_AB\<lparr>active_machine := Some machine_unbound\<rparr>"
proof -
  have w1: "connectToActiveMachine host_prefix manager_AB = manager_AB"
    using resolver_behaviour [where s = manager_AB and mk = host_prefix, THEN conjunct1]
    by (simp add: manager_AB_def)
  have w2: "connectToActiveMachine host_prefix (manager_AB\<lparr>active_machine := Some machine_bound_A\<rparr>) =
        manager_AB\<lparr>active_machine := Some machine_bound_A,
                    remote_clusters := [(''A'', device_A\<lparr>connected := True\<rparr>), (''B'', device_B)],
                    effects := [DeviceConnect ''A'']\<rparr>"
    using resolver_behaviour [where s = "manager_AB\<lparr>active_machine := Some machine_bound_A\<rparr>"
        and mk = host_prefix and m = machine_bound_A and cid = "''A''" and d = device_A,
        THEN conjunct2, THEN conjunct1]
    by (simp add: manager_AB_def machine_bound_A_def device_A_def)
  have w3: "connectToActiveMachine host_prefix (manager_AB\<lparr>active_machine := Some machine_unbound\<rparr>) =
        manager_AB\<lparr>active_machine := Some (machine_unbound\<lparr>um_cloud_cluster_id := Some ''B''\<rparr>),
                    remote_clusters := [(''A'', device_A), (''B'', device_B\<lparr>connected := True\<rparr>)],
                    effects := [SetMetaDataEntry META_CLUSTER_ID ''B'', DeviceConnect ''B'']\<rparr>"
    using resolver_behaviour [where s = "manager_AB\<lparr>active_machine := Some machine_unbound\<rparr>"
        and mk = host_prefix and m = machine_unbound and nk = "''h2.local''"
        and pre = "[(''A'', device_A)]" and k = "''B''" and d' = device_B and post = "[]",
        THEN conjunct2, THEN conjunct2, THEN conjunct1]
    by (simp add: manager_AB_def machine_unbound_def device_A_def device_B_def unbound_def
        host_prefix_def)
  have w4: "connectToActiveMachine host_prefix (manager_AB\<lparr>active_machine := Some machine_no_key\<rparr>) =
        manager_AB\<lparr>active_machine := Some machine_no_key\<rparr>"
    using resolver_behaviour [where s = "manager_AB\<lparr>active_machine := Some machine_no_key\<rparr>"
        and mk = host_prefix and m = machine_no_key,
        THEN conjunct2, THEN conjunct2, THEN conjunct2, THEN conjunct1]
    by (simp add: machine_no_key_def unbound_def)
  have w5: "connectToActiveMachine no_match (manager_AB\<lparr>active_machine := Some machine_unbound\<rparr>) =
        manager_AB\<lparr>active_machine := Some machine_unbound\<rparr>"
    using resolver_behaviour [where s = "manager_AB\<lparr>active_machine := Some machine_unbound\<rparr>"
        and mk = no_match and m = machine_unbound and nk = "''h2.local''",
        THEN conjunct2, THEN conjunct2, THEN conjunct2, THEN conjunct2]
    by (simp add: machine_unbound_def unbound_def no_match_def)
  from w1 w2 w3 w4 w5 show ?thesis by (intro conjI)
qed

subsection \<open>Sticky binding\<close>

text \<open>
  Claim C6. A stored cluster identity that is a key of the device table is never
  rewritten by a resolution, whichever devices match the network key of the machine. If a
  resolution does change the metadata of the machine, the stored identity was absent or
  was not a key of the table. On a well-formed table the identity a resolution writes is
  kept by the next resolution. A poll whose online clusters include the stored identity
  returns and leaves the machine as it was.
\<close>

theorem sticky_binding:
  "(active_machine s = Some m \<and> um_cloud_cluster_id m = Some cid
      \<and> cid \<in> fst ` set (remote_clusters s) \<longrightarrow>
      active_machine (connectToActiveMachine mk s) = Some m)
   \<and> (active_machine (connectToActiveMachine mk s) \<noteq> active_machine s \<longrightarrow>
        (\<exists>m'. active_machine s = Some m' \<and> unbound m' s))
   \<and> (table_inv (remote_clusters s) \<longrightarrow>
        active_machine (connectToActiveMachine mk (connectToActiveMachine mk s))
          = active_machine (connectToActiveMachine mk s))
   \<and> (table_inv (remote_clusters s) \<and> active_machine s = Some m \<and> um_cloud_cluster_id m = Some cid
        \<and> cid \<in> cluster_id ` {c \<in> set clusters. is_online c} \<longrightarrow>
        (\<exists>s'. onGetRemoteClustersFinished mk clusters s = Inr s' \<and> active_machine s' = Some m))"
proof (intro conjI impI)
  assume "active_machine s = Some m \<and> um_cloud_cluster_id m = Some cid
      \<and> cid \<in> fst ` set (remote_clusters s)"
  then show "active_machine (connectToActiveMachine mk s) = Some m"
    using resolve_keeps_stored [of s m cid mk] by simp
next
  assume "active_machine (connectToActiveMachine mk s) \<noteq> active_machine s"
  then show "\<exists>m'. active_machine s = Some m' \<and> unbound m' s"
    by (rule resolve_rebinds_only_unbound)
next
  assume "table_inv (remote_clusters s)"
  then show "active_machine (connectToActiveMachine mk (connectToActiveMachine mk s))
          = active_machine (connectToActiveMachine mk s)"
    by (rule resolve_twice)
next
  assume "table_inv (remote_clusters s) \<and> active_machine s = Some m \<and> um_cloud_cluster_id m = Some cid
        \<and> cid \<in> cluster_id ` {c \<in> set clusters. is_online c}"
  then show "\<exists>s'. onGetRemoteClustersFinished mk clusters s = Inr s' \<and> active_machine s' = Some m"
    using reconcile_keeps_stored [of s m cid clusters mk] by blast
qed

theorem sticky_binding_witness:
  "host_prefix device_B ''h2.local''
   \<and> active_machine (connectToActiveMachine host_prefix
        (manager_AB\<lparr>active_machine := Some machine_bound_A\<rparr>)) = Some machine_bound_A
   \<and> active_machine (connectToActiveMachine host_prefix
        (manager_AB\<lparr>active_machine := Some machine_stale\<rparr>))
       \<noteq> active_machine (manager_AB\<lparr>active_machine := Some machine_stale\<rparr>)
   \<and> unbound machine_stale (manager_AB\<lparr>active_machine := Some machine_stale\<rparr>)
   \<and> active_machine (connectToActiveMachine host_prefix (connectToActiveMachine host_prefix
        (manager_AB\<lparr>active_machine := Some machine_stale\<rparr>)))
       = active_machine (connectToActiveMachine host_prefix
           (manager_AB\<lparr>active_machine := Some machine_stale\<rparr>))
   \<and> (\<exists>s'. onGetRemoteClustersFinished host_prefix [cluster_B, cluster_A]
               (manager_AB\<lparr>active_machine := Some machine_bound_A\<rparr>) = Inr s'
          \<and> active_machine s' = Some machine_bound_A)"
proof -
  let ?sA = "manager_AB\<lparr>active_machine := Some machine_bound_A\<rparr>"
  let ?sC = "manager_AB\<lparr>active_machine := Some machine_stale\<rparr>"
  have w0: "host_prefix device_B ''h2.local''"
    by (simp add: host_prefix_def device_B_def)
  have inv: "table_inv (remote_clusters manager_AB)"
    by (simp add: table_inv_def manager_AB_def device_A_def device_B_def)
  have w1: "active_machine (connectToActiveMachine host_prefix ?sA) = Some machine_bound_A"
    using sticky_binding [where s = ?sA and mk = host_prefix and m = machine_bound_A and cid = "''A''",
        THEN conjunct1]
    by (simp add: manager_AB_def machine_bound_A_def)
  have w2: "active_machine (connectToActiveMachine host_prefix ?sC) \<noteq> active_machine ?sC"
    by (simp add: connectToActiveMachine_def connectByNetworkKey_def collaborator_defs
        manager_AB_def machine_stale_def device_A_def device_B_def host_prefix_def)
  from sticky_binding [where s = ?sC and mk = host_prefix, THEN conjunct2, THEN conjunct1] w2
  have "\<exists>m'. active_machine ?sC = Some m' \<and> unbound m' ?sC"
    by (rule mp)
  then have w3: "unbound machine_stale ?sC" by simp
  have w4: "active_machine (connectToActiveMachine host_prefix (connectToActiveMachine host_prefix ?sC))
       = active_machine (connectToActiveMachine host_prefix ?sC)"
    using sticky_binding [where s = ?sC and mk = host_prefix, THEN conjunct2, THEN conjunct2, THEN conjunct1]
      inv by simp
  have on: "is_online cluster_A" and idA: "cluster_id cluster_A = ''A''"
    by (simp_all add: cluster_A_def)
  then have "''A'' \<in> cluster_id ` {c \<in> set [cluster_B, cluster_A]. is_online c}"
    by force
  with inv have w5: "\<exists>s'. onGetRemoteClustersFinished host_prefix [cluster_B, cluster_A] ?sA = Inr s'
          \<and> active_machine s' = Some machine_bound_A"
    using sticky_binding [where s = ?sA and mk = host_prefix and m = machine_bound_A and cid = "''A''"
        and clusters = "[cluster_B, cluster_A]",
        THEN conjunct2, THEN conjunct2, THEN conjunct2]
    by (simp add: machine_bound_A_def)
  from w0 w1 w2 w3 w4 w5 show ?thesis by (intro conjI)
qed

subsection \<open>Offline clusters\<close>

text \<open>
  Claim C7. The callback keeps only the records with \<open>is_online\<close> set before it
  computes the diff: it gives the same result on the list of clusters and on its online
  records, and a record that is offline can be dropped from the list without any change
  of the result. A device of the table whose key has no online record in the response is
  among the removed devices of the diff. From a well-formed table the callback returns, and
  the keys of the table are then exactly the ids of the online records: no offline
  cluster has a device.
\<close>

theorem offline_records_filtered:
  "onGetRemoteClustersFinished mk clusters s
     = onGetRemoteClustersFinished mk (filter is_online clusters) s
   \<and> (\<not> is_online c \<longrightarrow>
        onGetRemoteClustersFinished mk (xs @ c # ys) s = onGetRemoteClustersFinished mk (xs @ ys) s)
   \<and> ((k, d) \<in> set (remote_clusters s)
        \<and> (\<forall>c \<in> set clusters. cluster_id c = k \<longrightarrow> \<not> is_online c) \<longrightarrow>
        (k, d) \<in> set (fst (findChanges (remote_clusters s) (online_clusters clusters))))
   \<and> (table_inv (remote_clusters s) \<longrightarrow>
        (\<exists>s'. onGetRemoteClustersFinished mk clusters s = Inr s'
           \<and> fst ` set (remote_clusters s') = cluster_id ` {c \<in> set clusters. is_online c}))"
proof (intro conjI impI)
  show "onGetRemoteClustersFinished mk clusters s
          = onGetRemoteClustersFinished mk (filter is_online clusters) s"
    by (simp add: onGetRemoteClustersFinished_def online_clusters_filter)
next
  assume "\<not> is_online c"
  then show "onGetRemoteClustersFinished mk (xs @ c # ys) s = onGetRemoteClustersFinished mk (xs @ ys) s"
    by (simp add: onGetRemoteClustersFinished_def online_clusters_skip)
next
  assume "(k, d) \<in> set (remote_clusters s)
        \<and> (\<forall>c \<in> set clusters. cluster_id c = k \<longrightarrow> \<not> is_online c)"
  then show "(k, d) \<in> set (fst (findChanges (remote_clusters s) (online_clusters clusters)))"
    using removed_when_not_online [of k d s clusters] by blast
next
  assume "table_inv (remote_clusters s)"
  then show "\<exists>s'. onGetRemoteClustersFinished mk clusters s = Inr s'
           \<and> fst ` set (remote_clusters s') = cluster_id ` {c \<in> set clusters. is_online c}"
    by (rule reconcile_table)
qed

theorem offline_records_filtered_witness:
  "\<not> is_online cluster_B_offline
   \<and> onGetRemoteClustersFinished host_prefix [cluster_A, cluster_B_offline] manager_AB
       = onGetRemoteClustersFinished host_prefix [cluster_A] manager_AB
   \<and> (''B'', device_B) \<in> set (fst (findChanges (remote_clusters manager_AB)
                                      (online_clusters [cluster_A, cluster_B_offline])))
   \<and> (\<exists>s'. onGetRemoteClustersFinished host_prefix [cluster_A, cluster_B_offline] manager_AB = Inr s'
          \<and> fst ` set (remote_clusters s') = {''A''})"
proof -
  note c7 = offline_records_filtered [where mk = host_prefix and s = manager_AB
      and clusters = "[cluster_A, cluster_B_offline]" and c = cluster_B_offline
      and xs = "[cluster_A]" and ys = "[]" and k = "''B''" and d = device_B]
  have off: "\<not> is_online cluster_B_offline" and idB: "cluster_id cluster_B_offline = ''B''"
    by (simp_all add: cluster_B_offline_def)
  have on: "is_online cluster_A" and idA: "cluster_id cluster_A = ''A''"
    by (simp_all add: cluster_A_def)
  have inv: "table_inv (remote_clusters manager_AB)"
    by (simp add: table_inv_def manager_AB_def device_A_def device_B_def)
  have w1: "onGetRemoteClustersFinished host_prefix [cluster_A, cluster_B_offline] manager_AB
       = onGetRemoteClustersFinished host_prefix [cluster_A] manager_AB"
    using c7 [THEN conjunct2, THEN conjunct1] off by simp
  have mem: "(''B'', device_B) \<in> set (remote_clusters manager_AB)"
    by (simp add: manager_AB_def)
  have none: "\<forall>c \<in> set [cluster_A, cluster_B_offline]. cluster_id c = ''B'' \<longrightarrow> \<not> is_online c"
    using off idA by simp
  from c7 [THEN conjunct2, THEN conjunct2, THEN conjunct1] mem none
  have w2: "(''B'', device_B) \<in> set (fst (findChanges (remote_clusters manager_AB)
                                      (online_clusters [cluster_A, cluster_B_offline])))"
    by blast
  from on off have "{c \<in> set [cluster_A, cluster_B_offline]. is_online c} = {cluster_A}"
    by auto
  with idA have ids: "cluster_id ` {c \<in> set [cluster_A, cluster_B_offline]. is_online c} = {''A''}"
    by simp
  from c7 [THEN conjunct2, THEN conjunct2, THEN conjunct2] inv
  have "\<exists>s'. onGetRemoteClustersFinished host_prefix [cluster_A, cluster_B_offline] manager_AB = Inr s'
          \<and> fst ` set (remote_clusters s')
               = cluster_id ` {c \<in> set [cluster_A, cluster_B_offline]. is_online c}"
    by (rule mp)
  then have w3: "\<exists>s'. onGetRemoteClustersFinished host_prefix [cluster_A, cluster_B_offline] manager_AB = Inr s'
          \<and> fst ` set (remote_clusters s') = {''A''}"
    unfolding ids .
  from off w1 w2 w3 show ?thesis by (intro conjI)
qed

subsection \<open>Order of the calls\<close>

text \<open>
  Claim C8. From a well-formed table the callback returns, and the calls it adds to the
  log are, in this order: for each removed device its teardown, then one registration for
  each added record, then one host name assignment for each updated pair, then the calls
  of the resolver, which are connects and metadata writes only. The teardown of a device
  is \<open>disconnect\<close> if and only if the device is connected, then \<open>close\<close>, then the removal
  from the registry. Over the whole callback \<open>close\<close> is called once for each removed
  device and for no other, \<open>disconnect\<close> once for each removed device that was connected,
  and afterwards no removed device is in the table or in the registry.
\<close>

theorem diff_applied_in_order:
  "table_inv (remote_clusters s) \<Longrightarrow>
   findChanges (remote_clusters s) (online_clusters clusters) = (removed, added, updates) \<Longrightarrow>
   \<exists>s' res. onGetRemoteClustersFinished mk clusters s = Inr s'
     \<and> effects s' = effects s @ concat (map teardown removed)
           @ map (\<lambda>c. AddOutputDevice (cluster_id c)) added
           @ map update_effect updates @ res
     \<and> list_all resolver_effect res
     \<and> closed_keys (drop (length (effects s)) (effects s')) = map (\<lambda>kd. key (snd kd)) removed
     \<and> disconnected_keys (drop (length (effects s)) (effects s'))
         = map (\<lambda>kd. key (snd kd)) (filter (\<lambda>kd. connected (snd kd)) removed)
     \<and> distinct (map (\<lambda>kd. key (snd kd)) removed)
     \<and> (\<forall>kd \<in> set removed. fst kd \<notin> fst ` set (remote_clusters s')
                              \<and> key (snd kd) \<notin> output_devices s')"
proof -
  assume inv: "table_inv (remote_clusters s)"
    and fc: "findChanges (remote_clusters s) (online_clusters clusters) = (removed, added, updates)"
  from reconcile_effects [OF inv fc, of mk]
  obtain s' res where res: "onGetRemoteClustersFinished mk clusters s = Inr s'"
    and eff: "effects s' = effects s @ concat (map teardown removed)
                 @ map (\<lambda>c. AddOutputDevice (cluster_id c)) added
                 @ map update_effect updates @ res"
    and rr: "list_all resolver_effect res"
    and tb: "fst ` set (remote_clusters s') \<inter> fst ` set removed = {}"
    and reg: "output_devices s' \<inter> fst ` set removed = {}"
    by blast
  from fc have rem: "removed = filter (\<lambda>kd. fst kd \<notin> fst ` set (online_clusters clusters)) (remote_clusters s)"
    using findChanges_removed [of "remote_clusters s" "online_clusters clusters"] by simp
  have own: "key (snd kd) = fst kd" if "kd \<in> set removed" for kd
    using that inv by (auto simp: rem table_inv_def)
  have keq: "map (\<lambda>kd. key (snd kd)) removed = map fst removed"
    by (rule map_cong [OF refl]) (rule own)
  have "distinct (map fst removed)"
    using inv by (simp add: rem table_inv_def distinct_map_filter)
  then have dist: "distinct (map (\<lambda>kd. key (snd kd)) removed)"
    unfolding keq .
  have new: "drop (length (effects s)) (effects s') = concat (map teardown removed)
                 @ map (\<lambda>c. AddOutputDevice (cluster_id c)) added
                 @ map update_effect updates @ res"
    by (simp add: eff)
  have cl: "closed_keys (drop (length (effects s)) (effects s')) = map (\<lambda>kd. key (snd kd)) removed"
    unfolding new using keys_of_resolver [OF rr] by (simp add: closed_keys_teardown)
  have dc: "disconnected_keys (drop (length (effects s)) (effects s'))
         = map (\<lambda>kd. key (snd kd)) (filter (\<lambda>kd. connected (snd kd)) removed)"
    unfolding new using keys_of_resolver [OF rr] by (simp add: disconnected_keys_teardown)
  have gone: "\<forall>kd \<in> set removed. fst kd \<notin> fst ` set (remote_clusters s')
                              \<and> key (snd kd) \<notin> output_devices s'"
  proof
    fix kd assume kd: "kd \<in> set removed"
    then have "fst kd \<in> fst ` set removed" by simp
    with tb reg have "fst kd \<notin> fst ` set (remote_clusters s')" "fst kd \<notin> output_devices s'"
      by blast+
    with own [OF kd] show "fst kd \<notin> fst ` set (remote_clusters s') \<and> key (snd kd) \<notin> output_devices s'"
      by simp
  qed
  from res eff rr cl dc dist gone show ?thesis by blast
qed

theorem diff_applied_in_order_witness:
  "table_inv (remote_clusters manager_AB)
   \<and> findChanges (remote_clusters manager_AB) (online_clusters [cluster_A_renamed, cluster_C])
       = ([(''B'', device_B)], [cluster_C], [((''A'', device_A), cluster_A_renamed)])
   \<and> (\<exists>s' res. onGetRemoteClustersFinished host_prefix [cluster_A_renamed, cluster_C] manager_AB = Inr s'
         \<and> effects s' = [DeviceDisconnect ''B'', DeviceClose ''B'', RemoveOutputDevice ''B'',
                          AddOutputDevice ''C'', DeviceSetHostName ''A'' ''h9''] @ res
         \<and> list_all resolver_effect res
         \<and> closed_keys (effects s') = [''B'']
         \<and> ''B'' \<notin> fst ` set (remote_clusters s')
         \<and> ''B'' \<notin> output_devices s')"
proof -
  have inv: "table_inv (remote_clusters manager_AB)"
    by (simp add: table_inv_def manager_AB_def device_A_def device_B_def)
  have fc: "findChanges (remote_clusters manager_AB) (online_clusters [cluster_A_renamed, cluster_C])
       = ([(''B'', device_B)], [cluster_C], [((''A'', device_A), cluster_A_renamed)])"
    by (simp add: findChanges_def online_clusters_def manager_AB_def cluster_A_renamed_def
        cluster_C_def device_A_def device_B_def)
  from diff_applied_in_order [OF inv fc, of host_prefix]
  obtain s' res where res: "onGetRemoteClustersFinished host_prefix [cluster_A_renamed, cluster_C] manager_AB = Inr s'"
    and eff: "effects s' = effects manager_AB @ concat (map teardown [(''B'', device_B)])
           @ map (\<lambda>c. AddOutputDevice (cluster_id c)) [cluster_C]
           @ map update_effect [((''A'', device_A), cluster_A_renamed)] @ res"
    and rr: "list_all resolver_effect res"
    and cl: "closed_keys (drop (length (effects manager_AB)) (effects s'))
               = map (\<lambda>kd. key (snd kd)) [(''B'', device_B)]"
    and gone: "\<forall>kd \<in> set [(''B'', device_B)]. fst kd \<notin> fst ` set (remote_clusters s')
                              \<and> key (snd kd) \<notin> output_devices s'"
    by blast
  have e0: "effects manager_AB = []" by (simp add: manager_AB_def)
  from eff have eff': "effects s' = [DeviceDisconnect ''B'', DeviceClose ''B'', RemoveOutputDevice ''B'',
                          AddOutputDevice ''C'', DeviceSetHostName ''A'' ''h9''] @ res"
    by (simp add: e0 teardown_def update_effect_def device_A_def device_B_def cluster_C_def
        cluster_A_renamed_def)
  from cl have cl': "closed_keys (effects s') = [''B'']"
    by (simp add: e0 device_B_def)
  from gone have g: "''B'' \<notin> fst ` set (remote_clusters s')" "''B'' \<notin> output_devices s'"
    by (simp_all add: device_B_def)
  from res eff' rr cl' g have "\<exists>s' res. onGetRemoteClustersFinished host_prefix [cluster_A_renamed, cluster_C] manager_AB = Inr s'
         \<and> effects s' = [DeviceDisconnect ''B'', DeviceClose ''B'', RemoveOutputDevice ''B'',
                          AddOutputDevice ''C'', DeviceSetHostName ''A'' ''h9''] @ res
         \<and> list_all resolver_effect res
         \<and> closed_keys (effects s') = [''B'']
         \<and> ''B'' \<notin> fst ` set (remote_clusters s')
         \<and> ''B'' \<notin> output_devices s'"
    by blast
  with inv fc show ?thesis by (intro conjI)
qed

end
